theory Spec2Isabelle
  imports Complex_Main
begin

section \<open>Python values and classes\<close>

text \<open>
  The exceptions the two source files can raise: a failed \<^verbatim>\<open>assert\<close>, a missing
  dictionary key, an index into an empty list, a division by zero and a missing attribute.
\<close>

datatype error = AssertionError | KeyError | IndexError | ZeroDivisionError | AttributeError

text \<open>
  Modelled from the spec: the class hierarchy of \<^verbatim>\<open>datatypes.py\<close>, which is not part of the
  sources at hand. The sources fix this much of it: \<^verbatim>\<open>Number\<close> and \<^verbatim>\<open>String\<close> box host
  literals and pass \<^verbatim>\<open>isinstance(value, Type)\<close>, and \<^verbatim>\<open>Element\<close> derives from \<^verbatim>\<open>Type\<close>.
  \<open>C_TypeSub n\<close> is any further class derived from \<^verbatim>\<open>Type\<close> (Point, Color, ...),
  \<open>C_ElementSub n\<close> any class derived from \<^verbatim>\<open>Element\<close> (Scene, Group, Rectangle, ...).
  The host classes \<^verbatim>\<open>int\<close>, \<^verbatim>\<open>float\<close>, \<^verbatim>\<open>bool\<close>, \<^verbatim>\<open>str\<close> and \<^verbatim>\<open>object\<close> are Python's own.
\<close>

datatype cls =
    C_object | C_int | C_float | C_bool | C_str
  | C_Type | C_Number | C_String | C_TypeSub string
  | C_Element | C_ElementSub string

fun is_Type_class :: "cls \<Rightarrow> bool" where
  "is_Type_class C_Type = True"
| "is_Type_class C_Number = True"
| "is_Type_class C_String = True"
| "is_Type_class (C_TypeSub n) = True"
| "is_Type_class C_Element = True"
| "is_Type_class (C_ElementSub n) = True"
| "is_Type_class c = False"

fun is_Element_class :: "cls \<Rightarrow> bool" where
  "is_Element_class C_Element = True"
| "is_Element_class (C_ElementSub n) = True"
| "is_Element_class c = False"

definition issubclass :: "cls \<Rightarrow> cls \<Rightarrow> bool" where
  "issubclass c d =
     (c = d \<or> d = C_object \<or> (c = C_bool \<and> d = C_int)
      \<or> (d = C_Type \<and> is_Type_class c) \<or> (d = C_Element \<and> is_Element_class c))"

text \<open>
  A Python value: a host literal, a boxed \<^verbatim>\<open>Number\<close> or \<^verbatim>\<open>String\<close> (holding the literal
  it was built from), or an instance of another class, identified by its class and a
  number. A float is kept as the rational it denotes; nothing below computes with it.
\<close>

datatype pyval =
    PyInt int | PyFloat rat | PyBool bool | PyStr string
  | Number pyval | String pyval
  | Instance cls nat

fun type_of :: "pyval \<Rightarrow> cls" where
  "type_of (PyInt i) = C_int"
| "type_of (PyFloat x) = C_float"
| "type_of (PyBool b) = C_bool"
| "type_of (PyStr s) = C_str"
| "type_of (Number v) = C_Number"
| "type_of (String v) = C_String"
| "type_of (Instance c n) = c"

definition isinstance :: "pyval \<Rightarrow> cls \<Rightarrow> bool" where
  "isinstance v c = issubclass (type_of v) c"

text \<open>
  The coercion both \<^verbatim>\<open>Element.define\<close> and \<^verbatim>\<open>Element.set\<close> start with:
  \<^verbatim>\<open>if isinstance(value, (int, float)): value = Number(value)\<close>
  \<^verbatim>\<open>elif isinstance(value, str): value = String(value)\<close>
\<close>

definition box :: "pyval \<Rightarrow> pyval" where
  "box v =
     (if isinstance v C_int \<or> isinstance v C_float then Number v
      else if isinstance v C_str then String v
      else v)"

section \<open>ElementProperty\<close>

text \<open>
  An element object is identified by its class and a number; a property is referred to by
  its owner and its name.
\<close>

type_synonym obj = "cls \<times> nat"

record ElementProperty =
  prop_name :: string
  prop_value :: "pyval option"
  prop_types :: "cls list"
  prop_relative :: "(obj \<times> string) option"

text \<open>
  \<^verbatim>\<open>ElementProperty.set\<close>: the assertion comes before the assignment. The result pairs the
  outcome with the property as the call leaves it, also when the call raises.
\<close>

definition ElementProperty_set ::
  "ElementProperty \<Rightarrow> pyval \<Rightarrow> (error + unit) \<times> ElementProperty" where
  "ElementProperty_set p v =
     (if list_ex (isinstance v) (prop_types p)
      then (Inr (), p\<lparr>prop_value := Some v\<rparr>)
      else (Inl AssertionError, p))"

definition ElementProperty_get :: "ElementProperty \<Rightarrow> pyval option" where
  "ElementProperty_get p = prop_value p"

text \<open>
  \<^verbatim>\<open>ElementProperty.__init__\<close>: the value field starts as \<^verbatim>\<open>None\<close> and is then assigned
  through \<^verbatim>\<open>set\<close>; when an assertion fails no object is returned.
\<close>

definition ElementProperty_init ::
  "string \<Rightarrow> pyval \<Rightarrow> cls list \<Rightarrow> (obj \<times> string) option \<Rightarrow> error + ElementProperty" where
  "ElementProperty_init name v types relative =
     (if \<not> list_all (\<lambda>t. issubclass t C_Type) types then Inl AssertionError
      else
        (case ElementProperty_set
                \<lparr>prop_name = name, prop_value = None, prop_types = types,
                 prop_relative = relative\<rparr> v of
           (Inl e, p) \<Rightarrow> Inl e
         | (Inr u, p) \<Rightarrow> Inr p))"

section \<open>Element\<close>

text \<open>
  The three fields \<^verbatim>\<open>Element.__init__\<close> sets up. The heap gives every element object its
  state; an object that no call has touched yet is as its constructor left it.
\<close>

record Element =
  properties :: "string \<rightharpoonup> ElementProperty"
  children :: "pyval list"
  parent :: "obj option"

type_synonym heap = "obj \<Rightarrow> Element"

definition Element_init :: Element where
  "Element_init = \<lparr>properties = Map.empty, children = [], parent = None\<rparr>"

definition fresh_heap :: heap where
  "fresh_heap = (\<lambda>r. Element_init)"

text \<open>
  The \<^verbatim>\<open>types\<close> argument of \<^verbatim>\<open>define\<close>: left out, a single class, or a tuple of classes.
\<close>

datatype types_arg = Types_None | Types_Single cls | Types_Tuple "cls list"

definition Element_define ::
  "heap \<Rightarrow> obj \<Rightarrow> string \<Rightarrow> pyval \<Rightarrow> types_arg \<Rightarrow> (obj \<times> string) option
     \<Rightarrow> (error + unit) \<times> heap" where
  "Element_define h self name v0 types0 relative =
     (let v = box v0 in
      if \<not> isinstance v C_Type then (Inl AssertionError, h)
      else if properties (h self) name \<noteq> None then (Inl AssertionError, h)
      else
        (let types =
               (case types0 of
                  Types_None \<Rightarrow> [type_of v]
                | Types_Single c \<Rightarrow> [c]
                | Types_Tuple cs \<Rightarrow> cs)
         in case ElementProperty_init name v types relative of
              Inl e \<Rightarrow> (Inl e, h)
            | Inr p \<Rightarrow>
                (Inr (), h(self := (h self)\<lparr>properties := (properties (h self))(name \<mapsto> p)\<rparr>))))"

text \<open>\<^verbatim>\<open>Element.get\<close>: a plain dictionary lookup, which raises \<^verbatim>\<open>KeyError\<close>.\<close>

definition Element_get :: "heap \<Rightarrow> obj \<Rightarrow> string \<Rightarrow> error + ElementProperty" where
  "Element_get h self name =
     (case properties (h self) name of None \<Rightarrow> Inl KeyError | Some p \<Rightarrow> Inr p)"

definition Element_set :: "heap \<Rightarrow> obj \<Rightarrow> string \<Rightarrow> pyval \<Rightarrow> (error + unit) \<times> heap" where
  "Element_set h self name v0 =
     (case properties (h self) name of
        None \<Rightarrow> (Inl AssertionError, h)
      | Some p \<Rightarrow>
          (case ElementProperty_set p (box v0) of
             (Inl e, p') \<Rightarrow> (Inl e, h)
           | (Inr u, p') \<Rightarrow>
               (Inr (), h(self := (h self)\<lparr>properties := (properties (h self))(name \<mapsto> p')\<rparr>))))"

text \<open>\<^verbatim>\<open>Element.has\<close>: \<^verbatim>\<open>return name in self._properties\<close>.\<close>

definition Element_has :: "heap \<Rightarrow> obj \<Rightarrow> string \<Rightarrow> bool" where
  "Element_has h self name = (properties (h self) name \<noteq> None)"

text \<open>
  The element object a value refers to (its class and its number).
\<close>

definition obj_of :: "pyval \<Rightarrow> obj" where
  "obj_of v = (type_of v, (case v of Instance c n \<Rightarrow> n | _ \<Rightarrow> 0))"

text \<open>
  \<^verbatim>\<open>Element.add\<close>: two assertions, then the two assignments in the order of the source
  (they hit the same object when an element is added to itself).
\<close>

definition Element_add :: "heap \<Rightarrow> obj \<Rightarrow> pyval \<Rightarrow> (error + unit) \<times> heap" where
  "Element_add h self element =
     (if \<not> isinstance element C_Element then (Inl AssertionError, h)
      else if parent (h (obj_of element)) \<noteq> None then (Inl AssertionError, h)
      else
        (let h1 = h(obj_of element := (h (obj_of element))\<lparr>parent := Some self\<rparr>);
             h2 = h1(self := (h1 self)\<lparr>children := children (h1 self) @ [element]\<rparr>)
         in (Inr (), h2)))"

text \<open>
  The calls that change an element, as data, so that a sequence of calls can be run. A call
  that raises leaves the heap as it was (each assertion precedes every assignment), and
  the caller may go on.
\<close>

datatype call =
    Define obj string pyval types_arg "(obj \<times> string) option"
  | Set obj string pyval
  | Add obj pyval

fun exec :: "call \<Rightarrow> heap \<Rightarrow> (error + unit) \<times> heap" where
  "exec (Define self name v types relative) h = Element_define h self name v types relative"
| "exec (Set self name v) h = Element_set h self name v"
| "exec (Add self element) h = Element_add h self element"

fun run :: "call list \<Rightarrow> heap \<Rightarrow> heap" where
  "run [] h = h"
| "run (c # cs) h = run cs (snd (exec c h))"

section \<open>Frame count and frame times\<close>

text \<open>
  \<^verbatim>\<open>calc_frame_count\<close>, on integer durations and frame rates (\<^verbatim>\<open>range\<close> accepts nothing
  else).
\<close>

definition calc_frame_count :: "int \<Rightarrow> int \<Rightarrow> bool \<Rightarrow> int" where
  "calc_frame_count duration frame_rate inclusive =
     (let frames = duration * frame_rate in
      if inclusive then frames + 1 else frames)"

text \<open>Python's \<^verbatim>\<open>range(n)\<close>: empty when \<open>n \<le> 0\<close>.\<close>

definition py_range :: "int \<Rightarrow> int list" where
  "py_range n = map int [0..<nat n]"

text \<open>
  Python's true division of two integers. The quotient is kept exact; Python rounds it to
  the nearest float.
\<close>

definition truediv :: "int \<Rightarrow> int \<Rightarrow> error + rat" where
  "truediv a b = (if b = 0 then Inl ZeroDivisionError else Inr (of_int a / of_int b))"

text \<open>
  \<^verbatim>\<open>iter_frame_time\<close> is a generator: each item is computed when it is asked for, and an
  item whose division raises ends the iteration with that exception. The model lists the
  outcome of each item in turn.
\<close>

definition iter_frame_time :: "int \<Rightarrow> int \<Rightarrow> bool \<Rightarrow> (error + int \<times> rat) list" where
  "iter_frame_time duration frame_rate inclusive =
     map (\<lambda>frame. case truediv frame frame_rate of
                     Inl e \<Rightarrow> Inl e
                   | Inr time \<Rightarrow> Inr (frame, time))
       (py_range (calc_frame_count duration frame_rate inclusive))"


section \<open>The renderer\<close>

text \<open>
  Modelled from the spec: \<^verbatim>\<open>Point\<close> and its addition (\<^verbatim>\<open>properties.py\<close> is not part of the
  sources at hand). A point is a pair of integer coordinates; bounds are a corner and an
  extent, and adding a point to them moves the corner.
\<close>

type_synonym point = "int \<times> int"

definition point_add :: "point \<Rightarrow> point \<Rightarrow> point" where
  "point_add p q = (fst p + fst q, snd p + snd q)"

datatype rect = Rect point point

fun rect_add :: "point \<Rightarrow> rect \<Rightarrow> rect" where
  "rect_add p (Rect corner extent) = Rect (point_add p corner) extent"

text \<open>
  Modelled from the spec: the raster collaborator (\<^verbatim>\<open>rasterizer.py\<close> is not part of the
  sources at hand). An image is what \<^verbatim>\<open>Image.new\<close> was given and the draw calls it has
  received since, in order; a font is what \<^verbatim>\<open>Font.load\<close> was given.
\<close>

type_synonym color = string

datatype font = Font string int

datatype draw_call =
    Draw_rect rect color color int
  | Draw_circle point int color color int
  | Draw_ellipse point int int color color int
  | Draw_line point point color int
  | Draw_text string point color font string string

record Image =
  img_size :: point
  img_background :: color
  img_calls :: "draw_call list"

definition Image_new :: "point \<Rightarrow> color \<Rightarrow> Image" where
  "Image_new sz bg = \<lparr>img_size = sz, img_background = bg, img_calls = []\<rparr>"

text \<open>
  Modelled from the spec: the element classes of \<^verbatim>\<open>elements.py\<close> (not part of the sources
  at hand), as the renderer reads them: each node carries the resolved attributes its
  handler uses, in the order the handler reads them, and its children last.
  \<^item> \<open>Scene size background duration frame_rate children\<close>
  \<^item> \<open>Group position children\<close>
  \<^item> \<open>Rectangle bounds color outline_color outline_width children\<close>
  \<^item> \<open>Circle center radius color outline_color outline_width children\<close>
  \<^item> \<open>Ellipse center radius_x radius_y color outline_color outline_width children\<close>
  \<^item> \<open>Line start_point end_point color width children\<close>
  \<^item> \<open>Text font font_size text position color anchor alignment children\<close>
  \<^item> \<open>Other class_name children\<close>: an element of a class the renderer has no
    \<^verbatim>\<open>_render_<class_name>\<close> method for.
\<close>

datatype element =
    Scene point color int int "element list"
  | Group point "element list"
  | Rectangle rect color color int "element list"
  | Circle point int color color int "element list"
  | Ellipse point int int color color int "element list"
  | Line point point color int "element list"
  | Text string int string point color string string "element list"
  | Other string "element list"

text \<open>The renderer's two fields; \<^verbatim>\<open>__init__\<close> sets no image and the stack \<^verbatim>\<open>[Point(0, 0)]\<close>.\<close>

record Renderer =
  R_image :: "Image option"
  R_translations :: "point list"

definition Renderer_init :: Renderer where
  "Renderer_init = \<lparr>R_image = None, R_translations = [(0, 0)]\<rparr>"

text \<open>\<^verbatim>\<open>Renderer.translation\<close>: \<^verbatim>\<open>self._translations[-1]\<close>, which raises on an empty list.\<close>

definition translation :: "Renderer \<Rightarrow> error + point" where
  "translation r =
     (if R_translations r = [] then Inl IndexError else Inr (last (R_translations r)))"

text \<open>
  \<^verbatim>\<open>Renderer.translate\<close> is a generator-based context manager: the push runs on entry, then
  the body of the \<^verbatim>\<open>with\<close> statement, and the pop is the code after \<^verbatim>\<open>yield\<close>. An exception
  of the body is thrown into the generator at the \<^verbatim>\<open>yield\<close>, which has no \<^verbatim>\<open>try\<close> around it,
  so the pop does not run and the exception goes on to the caller.
\<close>

definition translate ::
  "point \<Rightarrow> (Renderer \<Rightarrow> (error + 'a) \<times> Renderer) \<Rightarrow> Renderer \<Rightarrow> (error + 'a) \<times> Renderer" where
  "translate offset body r =
     (case translation r of
        Inl e \<Rightarrow> (Inl e, r)
      | Inr t \<Rightarrow>
          (case body (r\<lparr>R_translations := R_translations r @ [point_add t offset]\<rparr>) of
             (Inl e, r') \<Rightarrow> (Inl e, r')
           | (Inr x, r') \<Rightarrow>
               (if R_translations r' = [] then (Inl IndexError, r')
                else (Inr x, r'\<lparr>R_translations := butlast (R_translations r')\<rparr>))))"

text \<open>
  A call of one of the image's draw methods. The attribute lookup on \<^verbatim>\<open>self._image\<close> comes
  first and raises when no image has been created.
\<close>

definition draw :: "(point \<Rightarrow> draw_call) \<Rightarrow> Renderer \<Rightarrow> (error + unit) \<times> Renderer" where
  "draw mk r =
     (case R_image r of
        None \<Rightarrow> (Inl AttributeError, r)
      | Some img \<Rightarrow>
          (case translation r of
             Inl e \<Rightarrow> (Inl e, r)
           | Inr t \<Rightarrow> (Inr (), r\<lparr>R_image := Some (img\<lparr>img_calls := img_calls img @ [mk t]\<rparr>)\<rparr>)))"

text \<open>
  \<^verbatim>\<open>Renderer._render\<close> with its handlers, and \<^verbatim>\<open>Renderer._render_children\<close>. The handler
  is looked up by the name of the element's class, so the case distinction on the node is
  the dispatch; the lookup raises \<^verbatim>\<open>AttributeError\<close> for a class without a handler. Only
  \<^verbatim>\<open>_render_Scene\<close> returns a value (the image); the other handlers return \<^verbatim>\<open>None\<close>.
  The five shape handlers have one form, a draw call at the current translation and then
  the children, which \<open>render_shape\<close> writes once.
\<close>

fun render_element :: "element \<Rightarrow> Renderer \<Rightarrow> (error + Image option) \<times> Renderer"
  and render_children :: "element list \<Rightarrow> Renderer \<Rightarrow> (error + unit) \<times> Renderer"
  and render_shape ::
    "(point \<Rightarrow> draw_call) \<Rightarrow> element list \<Rightarrow> Renderer \<Rightarrow> (error + Image option) \<times> Renderer"
where
  "render_children [] r = (Inr (), r)"
| "render_children (child # rest) r =
     (case render_element child r of
        (Inl e, r') \<Rightarrow> (Inl e, r')
      | (Inr x, r') \<Rightarrow> render_children rest r')"
| "render_shape mk cs r =
     (case draw mk r of
        (Inl e, r') \<Rightarrow> (Inl e, r')
      | (Inr u, r') \<Rightarrow>
          (case render_children cs r' of
             (Inl e, r'') \<Rightarrow> (Inl e, r'')
           | (Inr u', r'') \<Rightarrow> (Inr None, r'')))"
| "render_element (Scene sz background duration frame_rate cs) r =
     (case render_children cs (r\<lparr>R_image := Some (Image_new sz background)\<rparr>) of
        (Inl e, r') \<Rightarrow> (Inl e, r')
      | (Inr u, r') \<Rightarrow> (Inr (R_image r'), r'))"
| "render_element (Group position cs) r =
     (case translate position (\<lambda>s. render_children cs s) r of
        (Inl e, r') \<Rightarrow> (Inl e, r')
      | (Inr u, r') \<Rightarrow> (Inr None, r'))"
| "render_element (Rectangle bounds color outline_color outline_width cs) r =
     render_shape (\<lambda>t. Draw_rect (rect_add t bounds) color outline_color outline_width) cs r"
| "render_element (Circle center radius color outline_color outline_width cs) r =
     render_shape (\<lambda>t. Draw_circle (point_add t center) radius color outline_color outline_width)
       cs r"
| "render_element (Ellipse center radius_x radius_y color outline_color outline_width cs) r =
     render_shape
       (\<lambda>t. Draw_ellipse (point_add t center) radius_x radius_y color outline_color outline_width)
       cs r"
| "render_element (Line start_point end_point color width cs) r =
     render_shape (\<lambda>t. Draw_line (point_add t start_point) (point_add t end_point) color width)
       cs r"
| "render_element (Text fnt font_size txt position color anchor alignment cs) r =
     render_shape
       (\<lambda>t. Draw_text txt (point_add t position) color (Font fnt font_size) anchor alignment)
       cs r"
| "render_element (Other class_name cs) r = (Inl AttributeError, r)"

text \<open>\<^verbatim>\<open>Renderer.render\<close>: the root must be a Scene, and the result must be an image.\<close>

fun is_Scene :: "element \<Rightarrow> bool" where
  "is_Scene (Scene sz background duration frame_rate cs) = True"
| "is_Scene e = False"

definition Renderer_render :: "element \<Rightarrow> Renderer \<Rightarrow> (error + Image) \<times> Renderer" where
  "Renderer_render el r =
     (if \<not> is_Scene el then (Inl AssertionError, r)
      else
        (case render_element el r of
           (Inl e, r') \<Rightarrow> (Inl e, r')
         | (Inr None, r') \<Rightarrow> (Inl AssertionError, r')
         | (Inr (Some img), r') \<Rightarrow> (Inr img, r')))"

section \<open>The animation driver\<close>

text \<open>
  \<^verbatim>\<open>Scene.compute\<close> and \<^verbatim>\<open>Scene.reset\<close> belong to \<^verbatim>\<open>elements.py\<close>, which is not part of the
  sources at hand: they are parameters of the driver, functions from the tree before the
  call to the tree after it. The module's \<^verbatim>\<open>_render(renderer, scene, time)\<close>:
\<close>

definition render_frame ::
  "(rat \<Rightarrow> element \<Rightarrow> element) \<Rightarrow> Renderer \<Rightarrow> element \<Rightarrow> rat
     \<Rightarrow> (error + Image) \<times> Renderer \<times> element" where
  "render_frame compute renderer scene time =
     (let scene' = compute time scene in
      case Renderer_render scene' renderer of (res, renderer') \<Rightarrow> (res, renderer', scene'))"

text \<open>The module's \<^verbatim>\<open>render(scene, time=0)\<close>.\<close>

definition render ::
  "(element \<Rightarrow> element) \<Rightarrow> (rat \<Rightarrow> element \<Rightarrow> element) \<Rightarrow> element \<Rightarrow> rat \<Rightarrow> error + Image" where
  "render reset compute scene time =
     fst (render_frame compute Renderer_init (reset scene) time)"

text \<open>
  Modelled from the spec: only a Scene has the attributes \<^verbatim>\<open>duration\<close> and \<^verbatim>\<open>frame_rate\<close>.
\<close>

fun scene_duration :: "element \<Rightarrow> error + int" where
  "scene_duration (Scene sz background duration frame_rate cs) = Inr duration"
| "scene_duration e = Inl AttributeError"

fun scene_frame_rate :: "element \<Rightarrow> error + int" where
  "scene_frame_rate (Scene sz background duration frame_rate cs) = Inr frame_rate"
| "scene_frame_rate e = Inl AttributeError"

text \<open>
  The frame loop of \<^verbatim>\<open>render_animation\<close>, over the items of the generator: the renderer,
  the scene and the list of frames so far are the loop's state. The progress line written
  to the terminal is left out.
\<close>

fun render_frames ::
  "(rat \<Rightarrow> element \<Rightarrow> element) \<Rightarrow> (error + int \<times> rat) list \<Rightarrow> Renderer \<Rightarrow> element
     \<Rightarrow> Image list \<Rightarrow> (error + Image list) \<times> Renderer \<times> element" where
  "render_frames compute [] renderer scene frames = (Inr frames, renderer, scene)"
| "render_frames compute (Inl e # rest) renderer scene frames = (Inl e, renderer, scene)"
| "render_frames compute (Inr (frame, time) # rest) renderer scene frames =
     (case render_frame compute renderer scene time of
        (Inl e, renderer', scene') \<Rightarrow> (Inl e, renderer', scene')
      | (Inr img, renderer', scene') \<Rightarrow>
          render_frames compute rest renderer' scene' (frames @ [img]))"

definition render_animation ::
  "(element \<Rightarrow> element) \<Rightarrow> (rat \<Rightarrow> element \<Rightarrow> element) \<Rightarrow> element \<Rightarrow> bool
     \<Rightarrow> error + Image list" where
  "render_animation reset compute scene inclusive =
     (let scene0 = reset scene in
      case scene_duration scene0 of
        Inl e \<Rightarrow> Inl e
      | Inr duration \<Rightarrow>
          (case scene_frame_rate scene0 of
             Inl e \<Rightarrow> Inl e
           | Inr frame_rate \<Rightarrow>
               fst (render_frames compute (iter_frame_time duration frame_rate inclusive)
                      Renderer_init scene0 [])))"

section \<open>Invariants and example objects\<close>

text \<open>
  A property conforms when it holds a value, the value is an instance of one of the
  property's allowed classes, and it is an instance of \<^verbatim>\<open>Type\<close> (boxed, not a host
  literal). A heap is in order when every property of every element conforms and allows
  only classes derived from \<^verbatim>\<open>Type\<close>, which is what the constructor asserts.
\<close>

definition conforms :: "ElementProperty \<Rightarrow> bool" where
  "conforms p =
     (case prop_value p of
        None \<Rightarrow> False
      | Some v \<Rightarrow> list_ex (isinstance v) (prop_types p) \<and> isinstance v C_Type)"

definition heap_ok :: "heap \<Rightarrow> bool" where
  "heap_ok h = (\<forall>self name p. properties (h self) name = Some p \<longrightarrow>
      conforms p \<and> list_all (\<lambda>t. issubclass t C_Type) (prop_types p))"

text \<open>Three element objects used in the examples below.\<close>

definition ex_group :: pyval where "ex_group = Instance (C_ElementSub ''Group'') 1"
definition ex_rect :: pyval where "ex_rect = Instance (C_ElementSub ''Rectangle'') 2"
definition ex_scene :: pyval where "ex_scene = Instance (C_ElementSub ''Scene'') 0"

text \<open>
  A property as \<^verbatim>\<open>define("width", 3)\<close> creates it, and the heap after that call on the
  rectangle.
\<close>

definition ex_prop :: ElementProperty where
  "ex_prop = \<lparr>prop_name = ''width'', prop_value = Some (Number (PyInt 3)),
               prop_types = [C_Number], prop_relative = None\<rparr>"

definition ex_heap :: heap where
  "ex_heap = run [Define (obj_of ex_rect) ''width'' (PyInt 3) Types_None None] fresh_heap"

text \<open>
  The child-ownership graph of a heap: an edge from each element to each entry of its
  \<^verbatim>\<open>_children\<close> list.
\<close>

definition child_edges :: "heap \<Rightarrow> (obj \<times> obj) set" where
  "child_edges h = {(p, c). c \<in> obj_of ` set (children (h p))}"

text \<open>
  A tree is handled when the renderer has a handler for the class of every node, and a
  renderable scene is a handled tree whose root is a Scene.
\<close>

fun handled :: "element \<Rightarrow> bool" where
  "handled (Scene sz background duration frame_rate cs) = list_all handled cs"
| "handled (Group position cs) = list_all handled cs"
| "handled (Rectangle bounds color outline_color outline_width cs) = list_all handled cs"
| "handled (Circle center radius color outline_color outline_width cs) = list_all handled cs"
| "handled (Ellipse center radius_x radius_y color outline_color outline_width cs) =
     list_all handled cs"
| "handled (Line start_point end_point color width cs) = list_all handled cs"
| "handled (Text fnt font_size caption position color anchor alignment cs) = list_all handled cs"
| "handled (Other class_name cs) = False"

definition scene_ok :: "element \<Rightarrow> bool" where
  "scene_ok e = (is_Scene e \<and> handled e)"



text \<open>
  An example tree: a Scene of one second at ten frames per second, whose only child is a
  Group at (10, 10) holding a Rectangle with bounds at (5, 5); and a renderer in the middle
  of a render, holding an empty image.
\<close>

definition ex_rectangle :: element where
  "ex_rectangle = Rectangle (Rect (5, 5) (20, 10)) ''red'' ''black'' 1 []"

definition ex_tree :: element where
  "ex_tree = Scene (100, 100) ''white'' 1 10 [Group (10, 10) [ex_rectangle]]"

definition ex_renderer :: Renderer where
  "ex_renderer = \<lparr>R_image = Some (Image_new (100, 100) ''white''), R_translations = [(0, 0)]\<rparr>"

text \<open>
  The times of the frames, and the scene as it is after each \<^verbatim>\<open>compute\<close> of a run over
  those times: \<^verbatim>\<open>compute\<close> changes the tree in place, so each frame starts from the tree the
  frame before left.
\<close>

definition frame_times :: "int \<Rightarrow> int \<Rightarrow> bool \<Rightarrow> rat list" where
  "frame_times duration frame_rate inclusive =
     map (\<lambda>frame. of_int frame / of_int frame_rate)
       (py_range (calc_frame_count duration frame_rate inclusive))"

fun scenes_after :: "(rat \<Rightarrow> element \<Rightarrow> element) \<Rightarrow> element \<Rightarrow> rat list \<Rightarrow> element list" where
  "scenes_after compute scene [] = []"
| "scenes_after compute scene (time # ts) =
     compute time scene # scenes_after compute (compute time scene) ts"

text \<open>
  An example of a \<^verbatim>\<open>compute\<close>: it rebuilds the children of a Scene as one Group, placed by
  the time, holding the example Rectangle.
\<close>

definition ex_compute :: "rat \<Rightarrow> element \<Rightarrow> element" where
  "ex_compute time scene =
     (case scene of
        Scene sz bg d fr cs \<Rightarrow> Scene sz bg d fr [Group (\<lfloor>time * 10\<rfloor>, 10) [ex_rectangle]]
      | _ \<Rightarrow> scene)"

section \<open>Classes and boxing\<close>

lemma issubclass_refl: "issubclass c c" by (simp add: issubclass_def)

lemma issubclass_Type_iff: "issubclass c C_Type = is_Type_class c"
  by (cases c) (simp_all add: issubclass_def)

lemma issubclass_into_Type:
  "issubclass c d \<Longrightarrow> issubclass d C_Type \<Longrightarrow> issubclass c C_Type"
  by (cases c; cases d) (simp_all add: issubclass_def)

lemma box_idem: "box (box v) = box v"
  by (cases v) (simp_all add: box_def isinstance_def issubclass_def)

lemma box_literals:
  "box (PyInt i) = Number (PyInt i)" "box (PyFloat x) = Number (PyFloat x)"
  "box (PyBool b) = Number (PyBool b)" "box (PyStr s) = String (PyStr s)"
  by (simp_all add: box_def isinstance_def issubclass_def)

lemma box_Type: "isinstance v C_Type \<Longrightarrow> box v = v"
  by (cases v) (auto simp add: box_def isinstance_def issubclass_def)

section \<open>Properties of the element operations\<close>

lemma heap_okD:
  "heap_ok h \<Longrightarrow> properties (h self) name = Some p \<Longrightarrow>
     conforms p \<and> list_all (\<lambda>t. issubclass t C_Type) (prop_types p)"
  unfolding heap_ok_def by blast

lemma set_Inr:
  "ElementProperty_set p v = (Inr u, p') \<Longrightarrow>
     p' = p\<lparr>prop_value := Some v\<rparr> \<and> list_ex (isinstance v) (prop_types p)"
  by (auto simp add: ElementProperty_set_def split: if_splits)

lemma init_Inr:
  "ElementProperty_init name v types relative = Inr p \<Longrightarrow>
     p = \<lparr>prop_name = name, prop_value = Some v, prop_types = types, prop_relative = relative\<rparr>
     \<and> list_ex (isinstance v) types \<and> list_all (\<lambda>t. issubclass t C_Type) types"
  by (auto simp add: ElementProperty_init_def ElementProperty_set_def split: if_splits)

lemma types_into_Type:
  "list_ex (isinstance v) ts \<Longrightarrow> list_all (\<lambda>t. issubclass t C_Type) ts \<Longrightarrow> isinstance v C_Type"
  by (auto simp add: list_ex_iff list_all_iff isinstance_def intro: issubclass_into_Type)

lemma define_Inr:
  assumes "Element_define h self name v0 types0 relative = (Inr u, h')"
  shows "\<exists>p. h' = h(self := (h self)\<lparr>properties := (properties (h self))(name \<mapsto> p)\<rparr>)
     \<and> properties (h self) name = None
     \<and> ElementProperty_init name (box v0)
          (case types0 of Types_None \<Rightarrow> [type_of (box v0)] | Types_Single c \<Rightarrow> [c]
           | Types_Tuple cs \<Rightarrow> cs) relative = Inr p
     \<and> isinstance (box v0) C_Type"
  using assms
  by (auto simp add: Element_define_def Let_def split: if_splits sum.splits)

lemma define_Inl: "Element_define h self name v0 types0 relative = (Inl e, h') \<Longrightarrow> h' = h"
  by (auto simp add: Element_define_def Let_def split: if_splits sum.splits)

lemma set_prop_Inr:
  assumes "Element_set h self name v0 = (Inr u, h')"
  shows "\<exists>p. properties (h self) name = Some p
     \<and> h' = h(self := (h self)\<lparr>properties := (properties (h self))(name \<mapsto> p\<lparr>prop_value := Some (box v0)\<rparr>)\<rparr>)
     \<and> list_ex (isinstance (box v0)) (prop_types p)"
  using assms
  by (auto simp add: Element_set_def ElementProperty_set_def split: option.splits if_splits)

lemma set_prop_Inl: "Element_set h self name v0 = (Inl e, h') \<Longrightarrow> h' = h"
  by (auto simp add: Element_set_def ElementProperty_set_def split: option.splits if_splits)

lemma add_Inl: "Element_add h self el = (Inl e, h') \<Longrightarrow> h' = h"
  by (auto simp add: Element_add_def Let_def split: if_splits)

lemma add_properties:
  "properties (snd (Element_add h self el) x) = properties (h x)"
  by (auto simp add: Element_add_def Let_def)

lemma heap_ok_fresh: "heap_ok fresh_heap"
  by (simp add: heap_ok_def fresh_heap_def Element_init_def)

lemma heap_ok_exec: "heap_ok h \<Longrightarrow> heap_ok (snd (exec c h))"
proof (cases c)
  case (Define self name v types relative)
  assume ok: "heap_ok h"
  show ?thesis
  proof (cases "Element_define h self name v types relative")
    case (Pair res h')
    show ?thesis
    proof (cases res)
      case (Inl e)
      with Pair Define ok show ?thesis by (auto dest: define_Inl)
    next
      case (Inr u)
      from define_Inr[OF Pair[unfolded Inr]] obtain p where
        h': "h' = h(self := (h self)\<lparr>properties := (properties (h self))(name \<mapsto> p)\<rparr>)"
        and p: "ElementProperty_init name (box v)
          (case types of Types_None \<Rightarrow> [type_of (box v)] | Types_Single c \<Rightarrow> [c]
           | Types_Tuple cs \<Rightarrow> cs) relative = Inr p"
        and ty: "isinstance (box v) C_Type" by blast
      from init_Inr[OF p] ty have "conforms p \<and> list_all (\<lambda>t. issubclass t C_Type) (prop_types p)"
        by (simp add: conforms_def)
      with ok h' Pair Define show ?thesis
        by (auto simp add: heap_ok_def)
    qed
  qed
next
  case (Set self name v)
  assume ok: "heap_ok h"
  show ?thesis
  proof (cases "Element_set h self name v")
    case (Pair res h')
    show ?thesis
    proof (cases res)
      case (Inl e)
      with Pair Set ok show ?thesis by (auto dest: set_prop_Inl)
    next
      case (Inr u)
      from set_prop_Inr[OF Pair[unfolded Inr]] obtain p where
        p: "properties (h self) name = Some p"
        and h': "h' = h(self := (h self)\<lparr>properties := (properties (h self))(name \<mapsto> p\<lparr>prop_value := Some (box v)\<rparr>)\<rparr>)"
        and ex: "list_ex (isinstance (box v)) (prop_types p)" by blast
      from heap_okD[OF ok p] have tys: "list_all (\<lambda>t. issubclass t C_Type) (prop_types p)"
        by simp
      with ex have "isinstance (box v) C_Type" by (rule types_into_Type)
      with ex tys have "conforms (p\<lparr>prop_value := Some (box v)\<rparr>)
          \<and> list_all (\<lambda>t. issubclass t C_Type) (prop_types (p\<lparr>prop_value := Some (box v)\<rparr>))"
        by (simp add: conforms_def)
      with ok h' Pair Set show ?thesis
        by (auto simp add: heap_ok_def)
    qed
  qed
next
  case (Add self el)
  assume ok: "heap_ok h"
  with Add show ?thesis
    by (simp add: heap_ok_def add_properties)
qed

lemma heap_ok_run: "heap_ok h \<Longrightarrow> heap_ok (run cs h)"
  by (induction cs arbitrary: h) (simp_all add: heap_ok_exec)

lemma define_parent: "parent (snd (Element_define h self name v ts rel) x) = parent (h x)"
  by (auto simp add: Element_define_def Let_def split: sum.splits)

lemma define_children: "children (snd (Element_define h self name v ts rel) x) = children (h x)"
  by (auto simp add: Element_define_def Let_def split: sum.splits)

lemma set_parent: "parent (snd (Element_set h self name v) x) = parent (h x)"
  by (auto simp add: Element_set_def split: option.splits sum.splits prod.splits)

lemma set_children: "children (snd (Element_set h self name v) x) = children (h x)"
  by (auto simp add: Element_set_def split: option.splits sum.splits prod.splits)

lemma add_Inr_pre:
  "Element_add h self el = (Inr u, h') \<Longrightarrow>
     isinstance el C_Element \<and> parent (h (obj_of el)) = None"
  by (cases "parent (h (obj_of el))") (simp_all add: Element_add_def Let_def split: if_splits)

lemma add_Inr_parent:
  "Element_add h self el = (Inr u, h') \<Longrightarrow>
     parent (h' x) = (if x = obj_of el then Some self else parent (h x))"
  by (cases "parent (h (obj_of el))") (auto simp add: Element_add_def Let_def split: if_splits)

lemma add_Inr_children:
  "Element_add h self el = (Inr u, h') \<Longrightarrow>
     children (h' x) = (if x = self then children (h x) @ [el] else children (h x))"
  by (cases "parent (h (obj_of el))") (auto simp add: Element_add_def Let_def split: if_splits)

lemma add_fails_iff:
  "fst (Element_add h self el) = Inl AssertionError
     \<longleftrightarrow> \<not> isinstance el C_Element \<or> parent (h (obj_of el)) \<noteq> None"
  by (auto simp add: Element_add_def Let_def)

lemma exec_parent_kept:
  "parent (h x) = Some p \<Longrightarrow> parent (snd (exec c h) x) = Some p"
proof (cases c)
  case (Add self el)
  assume px: "parent (h x) = Some p"
  show ?thesis
  proof (cases "Element_add h self el")
    case (Pair res h')
    show ?thesis
    proof (cases res)
      case (Inl e)
      with Pair Add px show ?thesis by (auto dest: add_Inl)
    next
      case (Inr u)
      from add_Inr_pre[OF Pair[unfolded Inr]] px have "x \<noteq> obj_of el" by auto
      with add_Inr_parent[OF Pair[unfolded Inr], of x] Pair Add px show ?thesis by simp
    qed
  qed
qed (simp_all add: define_parent set_parent)

lemma run_parent_kept:
  "parent (h x) = Some p \<Longrightarrow> parent (run cs h x) = Some p"
  by (induction cs arbitrary: h) (simp_all add: exec_parent_kept)

lemma exec_parent_change:
  assumes "parent (snd (exec c h) x) \<noteq> parent (h x)"
  shows "\<exists>self el. c = Add self el \<and> obj_of el = x \<and> fst (exec c h) = Inr ()
           \<and> parent (h x) = None \<and> parent (snd (exec c h) x) = Some self"
proof (cases c)
  case (Add self el)
  show ?thesis
  proof (cases "Element_add h self el")
    case (Pair res h')
    show ?thesis
    proof (cases res)
      case (Inl e)
      with Pair Add assms show ?thesis by (auto dest: add_Inl)
    next
      case (Inr u)
      from add_Inr_pre[OF Pair[unfolded Inr]] add_Inr_parent[OF Pair[unfolded Inr], of x]
        Pair Add assms Inr show ?thesis
        by (cases "x = obj_of el") auto
    qed
  qed
next
  case (Define self name v ts rel)
  with assms show ?thesis by (simp add: define_parent)
next
  case (Set self name v)
  with assms show ?thesis by (simp add: set_parent)
qed

lemma add_ex: "fst (Element_add fresh_heap (obj_of ex_group) ex_rect) = Inr ()"
  by (simp add: Element_add_def fresh_heap_def Element_init_def ex_group_def ex_rect_def
      obj_of_def isinstance_def issubclass_def Let_def)





lemma ex_heap_width:
  "properties (ex_heap (obj_of ex_rect)) ''width'' = Some ex_prop"
  by (simp add: ex_heap_def ex_prop_def Element_define_def ElementProperty_init_def
      ElementProperty_set_def fresh_heap_def Element_init_def box_def isinstance_def
      issubclass_def obj_of_def ex_rect_def Let_def)

lemma define_boxes_first:
  "Element_define h self name v ts rel = Element_define h self name (box v) ts rel"
  by (simp add: Element_define_def box_idem)

lemma set_boxes_first:
  "Element_set h self name v = Element_set h self name (box v)"
  by (simp add: Element_set_def box_idem split: option.splits)

lemma define_stores:
  assumes "Element_define h self name v ts rel = (Inr (), h')"
  shows "\<exists>p. properties (h' self) name = Some p \<and> prop_value p = Some (box v)
     \<and> isinstance (box v) C_Type
     \<and> prop_types p = (case ts of Types_None \<Rightarrow> [type_of (box v)] | Types_Single c \<Rightarrow> [c]
           | Types_Tuple cs \<Rightarrow> cs)"
proof -
  from define_Inr[OF assms] obtain p where
    h': "h' = h(self := (h self)\<lparr>properties := (properties (h self))(name \<mapsto> p)\<rparr>)"
    and p: "ElementProperty_init name (box v)
          (case ts of Types_None \<Rightarrow> [type_of (box v)] | Types_Single c \<Rightarrow> [c]
           | Types_Tuple cs \<Rightarrow> cs) rel = Inr p"
    and ty: "isinstance (box v) C_Type" by blast
  from init_Inr[OF p] h' ty show ?thesis by simp
qed

lemma set_stores:
  assumes "heap_ok h" and "Element_set h self name v = (Inr (), h')"
  shows "\<exists>p. properties (h' self) name = Some p \<and> prop_value p = Some (box v)
     \<and> isinstance (box v) C_Type"
proof -
  from set_prop_Inr[OF assms(2)] obtain p where
    p: "properties (h self) name = Some p"
    and h': "h' = h(self := (h self)\<lparr>properties := (properties (h self))(name \<mapsto> p\<lparr>prop_value := Some (box v)\<rparr>)\<rparr>)"
    and ex: "list_ex (isinstance (box v)) (prop_types p)" by blast
  from heap_okD[OF assms(1) p] ex have "isinstance (box v) C_Type"
    by (auto intro: types_into_Type)
  with h' show ?thesis by simp
qed

lemma ex_define:
  "Element_define fresh_heap (obj_of ex_rect) ''width'' (PyInt 3) Types_None None
     = (Inr (), ex_heap)"
  by (simp add: ex_heap_def Element_define_def ElementProperty_init_def
      ElementProperty_set_def fresh_heap_def Element_init_def box_def isinstance_def
      issubclass_def obj_of_def ex_rect_def Let_def)

lemma ex_set:
  "fst (Element_set ex_heap (obj_of ex_rect) ''width'' (PyFloat (5 / 2))) = Inr ()"
  by (simp add: Element_set_def ex_heap_width ex_prop_def ElementProperty_set_def box_def
      isinstance_def issubclass_def)

lemma add_child_edges:
  assumes "Element_add h self el = (Inr (), h')"
  shows "child_edges h' = insert (self, obj_of el) (child_edges h)"
  unfolding child_edges_def
  by (auto simp add: add_Inr_children[OF assms] split: if_splits)

lemma add_succeeds_iff:
  "fst (Element_add h self el) = Inr ()
     \<longleftrightarrow> isinstance el C_Element \<and> parent (h (obj_of el)) = None"
  by (cases "parent (h (obj_of el))") (simp_all add: Element_add_def Let_def)

lemma child_edges_fresh: "child_edges fresh_heap = {}"
  by (simp add: child_edges_def fresh_heap_def Element_init_def)

section \<open>Properties of the renderer\<close>

lemma draw_Inr:
  "draw mk r = (Inr u, r') \<Longrightarrow>
     \<exists>img t. R_image r = Some img \<and> translation r = Inr t
       \<and> r' = r\<lparr>R_image := Some (img\<lparr>img_calls := img_calls img @ [mk t]\<rparr>)\<rparr>"
  by (auto simp add: draw_def split: option.splits sum.splits)

lemma translate_Inr:
  assumes "translate offset body r = (Inr x, r')"
  shows "\<exists>t r2. translation r = Inr t
      \<and> body (r\<lparr>R_translations := R_translations r @ [point_add t offset]\<rparr>) = (Inr x, r2)
      \<and> R_translations r2 \<noteq> [] \<and> r' = r2\<lparr>R_translations := butlast (R_translations r2)\<rparr>"
  using assms
  by (auto simp add: translate_def split: sum.splits prod.splits if_splits)

lemma draw_keeps_stack: "draw mk r = (Inr u, r') \<Longrightarrow> R_translations r' = R_translations r"
  by (auto dest!: draw_Inr)

lemma render_children_Cons_Inr:
  "render_children (c # cs) r = (Inr u, r') \<Longrightarrow>
     \<exists>x r1. render_element c r = (Inr x, r1) \<and> render_children cs r1 = (Inr u, r')"
  by (simp split: prod.splits sum.splits)

lemma render_shape_Inr:
  "render_shape mk cs r = (Inr y, r') \<Longrightarrow>
     \<exists>u r1 u'. draw mk r = (Inr u, r1) \<and> render_children cs r1 = (Inr u', r') \<and> y = None"
  by (simp split: prod.splits sum.splits)

lemma render_Scene_Inr:
  "render_element (Scene sz bg d fr cs) r = (Inr x, r') \<Longrightarrow>
     \<exists>u. render_children cs (r\<lparr>R_image := Some (Image_new sz bg)\<rparr>) = (Inr u, r')
       \<and> x = R_image r'"
  by (simp split: prod.splits sum.splits)

lemma render_Group_Inr:
  "render_element (Group position cs) r = (Inr x, r') \<Longrightarrow>
     \<exists>u. translate position (\<lambda>s. render_children cs s) r = (Inr u, r') \<and> x = None"
  by (simp split: prod.splits sum.splits)

lemma render_keeps_stack:
  "render_element el r = (Inr x, r1) \<Longrightarrow> R_translations r1 = R_translations r"
  "render_children cs r = (Inr u, r2) \<Longrightarrow> R_translations r2 = R_translations r"
  "render_shape mk cs r = (Inr y, r3) \<Longrightarrow> R_translations r3 = R_translations r"
proof (induction el r and cs r and mk cs r arbitrary: x r1 and u r2 and y r3
    rule: render_element_render_children_render_shape.induct)
  case (1 r)
  then show ?case by simp
next
  case (2 child rest r)
  from render_children_Cons_Inr[OF "2.prems"] obtain x s where
    a: "render_element child r = (Inr x, s)" and b: "render_children rest s = (Inr u, r2)"
    by blast
  from "2.IH"(1)[OF a] "2.IH"(2)[OF a[symmetric] refl b] show ?case by simp
next
  case (3 mk cs r)
  from render_shape_Inr[OF "3.prems"] obtain u s u' where
    a: "draw mk r = (Inr u, s)" and b: "render_children cs s = (Inr u', r3)"
    by blast
  from draw_keeps_stack[OF a] "3.IH"[OF a[symmetric] refl b] show ?case by simp
next
  case (4 sz background duration frame_rate cs r)
  from render_Scene_Inr[OF "4.prems"] obtain u where
    a: "render_children cs (r\<lparr>R_image := Some (Image_new sz background)\<rparr>) = (Inr u, r1)"
    by blast
  from "4.IH"[OF a] show ?case by simp
next
  case (5 position cs r)
  from render_Group_Inr[OF "5.prems"] obtain u where
    t: "translate position (\<lambda>s. render_children cs s) r = (Inr u, r1)" by blast
  from translate_Inr[OF t] obtain t s where
    b: "render_children cs (r\<lparr>R_translations := R_translations r @ [point_add t position]\<rparr>)
          = (Inr u, s)"
    and r1: "r1 = s\<lparr>R_translations := butlast (R_translations s)\<rparr>" by blast
  from "5.IH"[OF b] r1 show ?case by simp
next
  case (6 bounds color outline_color outline_width cs r)
  from "6.prems" "6.IH" show ?case by (simp only: render_element.simps)
next
  case (7 center radius color outline_color outline_width cs r)
  from "7.prems" "7.IH" show ?case by (simp only: render_element.simps)
next
  case (8 center radius_x radius_y color outline_color outline_width cs r)
  from "8.prems" "8.IH" show ?case by (simp only: render_element.simps)
next
  case (9 start_point end_point color width cs r)
  from "9.prems" "9.IH" show ?case by (simp only: render_element.simps)
next
  case (10 fnt font_size caption position color anchor alignment cs r)
  from "10.prems" "10.IH" show ?case by (simp only: render_element.simps)
next
  case (11 class_name cs r)
  then show ?case by simp
qed

lemma draw_ok:
  "R_image r = Some img \<Longrightarrow> R_translations r \<noteq> [] \<Longrightarrow>
     draw mk r = (Inr (), r\<lparr>R_image := Some (img\<lparr>img_calls := img_calls img
        @ [mk (last (R_translations r))]\<rparr>)\<rparr>)"
  by (simp add: draw_def translation_def)

lemma render_handled:
  "handled el \<Longrightarrow> R_translations r \<noteq> [] \<Longrightarrow> is_Scene el \<or> R_image r \<noteq> None \<Longrightarrow>
     \<exists>x r1. render_element el r = (Inr x, r1) \<and> R_image r1 \<noteq> None
       \<and> (is_Scene el \<longrightarrow> x = R_image r1)"
  "list_all handled cs \<Longrightarrow> R_translations r \<noteq> [] \<Longrightarrow> R_image r \<noteq> None \<Longrightarrow>
     \<exists>r2. render_children cs r = (Inr (), r2) \<and> R_image r2 \<noteq> None"
  "list_all handled cs \<Longrightarrow> R_translations r \<noteq> [] \<Longrightarrow> R_image r \<noteq> None \<Longrightarrow>
     \<exists>r3. render_shape mk cs r = (Inr None, r3) \<and> R_image r3 \<noteq> None"
proof (induction el r and cs r and mk cs r
    rule: render_element_render_children_render_shape.induct)
  case (1 r)
  then show ?case by simp
next
  case (2 child rest r)
  from "2.prems" have hc: "handled child" and hr: "list_all handled rest" by simp_all
  from "2.IH"(1)[OF hc "2.prems"(2)] "2.prems"(3) obtain x s where
    a: "render_element child r = (Inr x, s)" and i: "R_image s \<noteq> None" by blast
  from render_keeps_stack(1)[OF a] "2.prems"(2) have st: "R_translations s \<noteq> []" by simp
  from "2.IH"(2)[OF a[symmetric] refl hr st i] obtain r2 where
    "render_children rest s = (Inr (), r2)" "R_image r2 \<noteq> None" by blast
  with a show ?case by simp
next
  case (3 mk cs r)
  from "3.prems"(3) obtain img where img: "R_image r = Some img" by blast
  let ?s = "r\<lparr>R_image := Some (img\<lparr>img_calls := img_calls img
        @ [mk (last (R_translations r))]\<rparr>)\<rparr>"
  have a: "draw mk r = (Inr (), ?s)" using img "3.prems"(2) by (rule draw_ok)
  have "R_translations ?s \<noteq> []" "R_image ?s \<noteq> None" using "3.prems"(2) by simp_all
  from "3.IH"[OF a[symmetric] refl "3.prems"(1) this] obtain r2 where
    "render_children cs ?s = (Inr (), r2)" "R_image r2 \<noteq> None" by blast
  with a show ?case by simp
next
  case (4 sz background duration frame_rate cs r)
  let ?s = "r\<lparr>R_image := Some (Image_new sz background)\<rparr>"
  from "4.prems" have "list_all handled cs" "R_translations ?s \<noteq> []" "R_image ?s \<noteq> None"
    by simp_all
  from "4.IH"[OF this] obtain r2 where
    "render_children cs ?s = (Inr (), r2)" "R_image r2 \<noteq> None" by blast
  then show ?case by simp
next
  case (5 position cs r)
  let ?s = "r\<lparr>R_translations := R_translations r @ [point_add (last (R_translations r)) position]\<rparr>"
  from "5.prems" have "list_all handled cs" "R_translations ?s \<noteq> []" "R_image ?s \<noteq> None"
    by simp_all
  from "5.IH"[OF this] obtain r2 where
    b: "render_children cs ?s = (Inr (), r2)" and i: "R_image r2 \<noteq> None" by blast
  from render_keeps_stack(2)[OF b] have "R_translations r2 \<noteq> []" by simp
  with b i "5.prems"(2) show ?case by (simp add: translate_def translation_def)
next
  case (6 bounds color outline_color outline_width cs r)
  from "6.prems" have "list_all handled cs" "R_image r \<noteq> None" by simp_all
  from "6.IH"[OF this(1) "6.prems"(2) this(2)] show ?case by auto
next
  case (7 center radius color outline_color outline_width cs r)
  from "7.prems" have "list_all handled cs" "R_image r \<noteq> None" by simp_all
  from "7.IH"[OF this(1) "7.prems"(2) this(2)] show ?case by auto
next
  case (8 center radius_x radius_y color outline_color outline_width cs r)
  from "8.prems" have "list_all handled cs" "R_image r \<noteq> None" by simp_all
  from "8.IH"[OF this(1) "8.prems"(2) this(2)] show ?case by auto
next
  case (9 start_point end_point color width cs r)
  from "9.prems" have "list_all handled cs" "R_image r \<noteq> None" by simp_all
  from "9.IH"[OF this(1) "9.prems"(2) this(2)] show ?case by auto
next
  case (10 fnt font_size caption position color anchor alignment cs r)
  from "10.prems" have "list_all handled cs" "R_image r \<noteq> None" by simp_all
  from "10.IH"[OF this(1) "10.prems"(2) this(2)] show ?case by auto
next
  case (11 class_name cs r)
  then show ?case by simp
qed

lemma draw_Inl: "draw mk r = (Inl e, r') \<Longrightarrow> r' = r"
  by (auto simp add: draw_def split: option.splits sum.splits)

lemma translate_Inl:
  assumes "translate offset body r = (Inl e, r')"
  shows "r' = r \<and> translation r = Inl e
    \<or> (\<exists>t. translation r = Inr t
          \<and> body (r\<lparr>R_translations := R_translations r @ [point_add t offset]\<rparr>) = (Inl e, r'))
    \<or> (\<exists>t x. translation r = Inr t
          \<and> body (r\<lparr>R_translations := R_translations r @ [point_add t offset]\<rparr>) = (Inr x, r')
          \<and> R_translations r' = [])"
  using assms
  by (auto simp add: translate_def split: sum.splits prod.splits if_splits)

lemma render_children_Cons_Inl:
  "render_children (c # cs) r = (Inl e, r') \<Longrightarrow>
     render_element c r = (Inl e, r')
     \<or> (\<exists>x s. render_element c r = (Inr x, s) \<and> render_children cs s = (Inl e, r'))"
  by (simp split: prod.splits sum.splits)

lemma render_shape_Inl:
  "render_shape mk cs r = (Inl e, r') \<Longrightarrow>
     draw mk r = (Inl e, r')
     \<or> (\<exists>u s. draw mk r = (Inr u, s) \<and> render_children cs s = (Inl e, r'))"
  by (simp split: prod.splits sum.splits)

lemma render_Scene_Inl:
  "render_element (Scene sz bg d fr cs) r = (Inl e, r') \<Longrightarrow>
     render_children cs (r\<lparr>R_image := Some (Image_new sz bg)\<rparr>) = (Inl e, r')"
  by (simp split: prod.splits sum.splits)

lemma render_Group_Inl:
  "render_element (Group position cs) r = (Inl e, r') \<Longrightarrow>
     translate position (\<lambda>s. render_children cs s) r = (Inl e, r')"
  by (simp split: prod.splits sum.splits)

lemma render_error_stack:
  "render_element el r = (Inl e, r1) \<Longrightarrow> \<exists>rest. R_translations r1 = R_translations r @ rest"
  "render_children cs r = (Inl e, r2) \<Longrightarrow> \<exists>rest. R_translations r2 = R_translations r @ rest"
  "render_shape mk cs r = (Inl e, r3) \<Longrightarrow> \<exists>rest. R_translations r3 = R_translations r @ rest"
proof (induction el r and cs r and mk cs r arbitrary: r1 and r2 and r3
    rule: render_element_render_children_render_shape.induct)
  case (1 r)
  then show ?case by simp
next
  case (2 child rest r)
  from render_children_Cons_Inl[OF "2.prems"] show ?case
  proof
    assume "render_element child r = (Inl e, r2)"
    then show ?thesis by (rule "2.IH"(1))
  next
    assume "\<exists>x s. render_element child r = (Inr x, s) \<and> render_children rest s = (Inl e, r2)"
    then obtain x s where a: "render_element child r = (Inr x, s)"
      and b: "render_children rest s = (Inl e, r2)" by blast
    from "2.IH"(2)[OF a[symmetric] refl b] render_keeps_stack(1)[OF a] show ?thesis by simp
  qed
next
  case (3 mk cs r)
  from render_shape_Inl[OF "3.prems"] show ?case
  proof
    assume "draw mk r = (Inl e, r3)"
    then have "r3 = r" by (rule draw_Inl)
    then show ?thesis by simp
  next
    assume "\<exists>u s. draw mk r = (Inr u, s) \<and> render_children cs s = (Inl e, r3)"
    then obtain u s where a: "draw mk r = (Inr u, s)"
      and b: "render_children cs s = (Inl e, r3)" by blast
    from "3.IH"[OF a[symmetric] refl b] draw_keeps_stack[OF a] show ?thesis by simp
  qed
next
  case (4 sz background duration frame_rate cs r)
  from "4.IH"[OF render_Scene_Inl[OF "4.prems"]] show ?case by simp
next
  case (5 position cs r)
  from translate_Inl[OF render_Group_Inl[OF "5.prems"]] show ?case
  proof (elim disjE exE conjE)
    assume "r1 = r"
    then show ?thesis by simp
  next
    fix t
    assume "render_children cs (r\<lparr>R_translations := R_translations r @ [point_add t position]\<rparr>)
        = (Inl e, r1)"
    from "5.IH"[OF this] show ?thesis by auto
  next
    fix t x
    assume b: "render_children cs (r\<lparr>R_translations := R_translations r @ [point_add t position]\<rparr>)
        = (Inr x, r1)" and "R_translations r1 = []"
    with render_keeps_stack(2)[OF b] show ?thesis by simp
  qed
next
  case (6 bounds color outline_color outline_width cs r)
  from "6.prems" "6.IH" show ?case by (simp only: render_element.simps)
next
  case (7 center radius color outline_color outline_width cs r)
  from "7.prems" "7.IH" show ?case by (simp only: render_element.simps)
next
  case (8 center radius_x radius_y color outline_color outline_width cs r)
  from "8.prems" "8.IH" show ?case by (simp only: render_element.simps)
next
  case (9 start_point end_point color width cs r)
  from "9.prems" "9.IH" show ?case by (simp only: render_element.simps)
next
  case (10 fnt font_size caption position color anchor alignment cs r)
  from "10.prems" "10.IH" show ?case by (simp only: render_element.simps)
next
  case (11 class_name cs r)
  then show ?case by simp
qed

lemma translate_body_raises:
  "translation r = Inr t \<Longrightarrow>
   body (r\<lparr>R_translations := R_translations r @ [point_add t offset]\<rparr>) = (Inl e, r') \<Longrightarrow>
   translate offset body r = (Inl e, r')"
  by (simp add: translate_def)

lemma translate_body_returns:
  "translation r = Inr t \<Longrightarrow>
   body (r\<lparr>R_translations := R_translations r @ [point_add t offset]\<rparr>) = (Inr x, r') \<Longrightarrow>
   R_translations r' = R_translations r @ [point_add t offset] \<Longrightarrow>
   translate offset body r = (Inr x, r'\<lparr>R_translations := R_translations r\<rparr>)"
  by (simp add: translate_def)

lemma Group_error_leaks:
  assumes "render_element (Group position cs) r = (Inl e, r')" and "translation r = Inr t"
  shows "\<exists>rest. R_translations r' = R_translations r @ [point_add t position] @ rest"
proof -
  from translate_Inl[OF render_Group_Inl[OF assms(1)]] assms(2) show ?thesis
  proof (elim disjE exE conjE)
    fix t'
    assume "translation r = Inr t'" and
      b: "render_children cs (r\<lparr>R_translations := R_translations r @ [point_add t' position]\<rparr>)
        = (Inl e, r')"
    with assms(2) render_error_stack(2)[OF b] show ?thesis by auto
  next
    fix t' x
    assume b: "render_children cs (r\<lparr>R_translations := R_translations r @ [point_add t' position]\<rparr>)
        = (Inr x, r')" and "R_translations r' = []"
    with render_keeps_stack(2)[OF b] show ?thesis by simp
  qed simp
qed



lemma ex_group_leaks:
  "render_children [Other ''Blob'' []]
     (ex_renderer\<lparr>R_translations := R_translations ex_renderer @ [point_add (0, 0) (10, 10)]\<rparr>)
     = (Inl AttributeError, ex_renderer\<lparr>R_translations := [(0, 0), (10, 10)]\<rparr>)"
  by (simp add: ex_renderer_def point_add_def)

section \<open>Properties of the animation driver\<close>

lemma length_py_range: "length (py_range n) = nat n"
  by (simp add: py_range_def)


lemma iter_frame_time_nonzero:
  "frame_rate \<noteq> 0 \<Longrightarrow>
     iter_frame_time duration frame_rate inclusive
       = map (\<lambda>frame. Inr (frame, of_int frame / of_int frame_rate))
           (py_range (calc_frame_count duration frame_rate inclusive))"
  by (simp add: iter_frame_time_def truediv_def)


lemma length_scenes_after: "length (scenes_after compute scene ts) = length ts"
  by (induction ts arbitrary: scene) simp_all

lemma scenes_after_take:
  "scenes_after compute scene (take k ts) = take k (scenes_after compute scene ts)"
proof (induction ts arbitrary: scene k)
  case Nil
  then show ?case by simp
next
  case (Cons time ts)
  then show ?case by (cases k) simp_all
qed

lemma Scene_render_same_stack:
  "is_Scene el \<Longrightarrow> R_translations r = R_translations s \<Longrightarrow>
     fst (render_element el r) = fst (render_element el s)
     \<and> R_translations (snd (render_element el r)) = R_translations (snd (render_element el s))"
proof (cases el)
  case (Scene sz bg d fr cs)
  assume "R_translations r = R_translations s"
  then have "r\<lparr>R_image := Some (Image_new sz bg)\<rparr> = s\<lparr>R_image := Some (Image_new sz bg)\<rparr>"
    by (cases r; cases s) simp
  with Scene show ?thesis by simp
qed simp_all

lemma Renderer_render_same_stack:
  "is_Scene el \<Longrightarrow> R_translations r = R_translations s \<Longrightarrow>
     fst (Renderer_render el r) = fst (Renderer_render el s)"
  using Scene_render_same_stack[of el r s]
  by (cases "render_element el r"; cases "render_element el s")
    (auto simp add: Renderer_render_def split: sum.splits option.splits)

lemma Renderer_render_ok:
  assumes "scene_ok el" and "R_translations r \<noteq> []"
  shows "\<exists>img r'. Renderer_render el r = (Inr img, r') \<and> R_translations r' = R_translations r"
proof -
  from assms have sc: "is_Scene el" and h: "handled el" by (simp_all add: scene_ok_def)
  from render_handled(1)[OF h assms(2)] sc obtain x r1 where
    a: "render_element el r = (Inr x, r1)" and i: "R_image r1 \<noteq> None" and x: "x = R_image r1"
    by blast
  from i x obtain img where "x = Some img" by auto
  with a sc render_keeps_stack(1)[OF a] show ?thesis
    by (simp add: Renderer_render_def)
qed

lemma render_frame_ok:
  assumes "scene_ok (compute time scene)" and "R_translations r = [(0, 0)]"
  shows "\<exists>img r'. render_frame compute r scene time = (Inr img, r', compute time scene)
     \<and> R_translations r' = [(0, 0)]
     \<and> fst (Renderer_render (compute time scene) Renderer_init) = Inr img"
proof -
  from assms(2) have ne: "R_translations r \<noteq> []" by simp
  from Renderer_render_ok[OF assms(1) ne] obtain img r' where
    a: "Renderer_render (compute time scene) r = (Inr img, r')"
    and st: "R_translations r' = R_translations r" by blast
  from assms have "fst (Renderer_render (compute time scene) r)
      = fst (Renderer_render (compute time scene) Renderer_init)"
    by (intro Renderer_render_same_stack) (simp_all add: scene_ok_def Renderer_init_def)
  with a have im: "fst (Renderer_render (compute time scene) Renderer_init) = Inr img"
    by simp
  from a have "render_frame compute r scene time = (Inr img, r', compute time scene)"
    by (simp add: render_frame_def)
  with st assms(2) im show ?thesis by simp
qed

lemma render_frames_ok:
  assumes "list_all scene_ok (scenes_after compute scene (map snd ps))"
    and "R_translations r = [(0, 0)]"
  shows "\<exists>imgs r' scene'.
      render_frames compute (map Inr ps) r scene acc = (Inr (acc @ imgs), r', scene')
      \<and> R_translations r' = [(0, 0)]
      \<and> map Inr imgs = map (\<lambda>s. fst (Renderer_render s Renderer_init))
            (scenes_after compute scene (map snd ps))"
  using assms
proof (induction ps arbitrary: r scene acc)
  case Nil
  then show ?case by simp
next
  case (Cons p ps)
  obtain frame time where p: "p = (frame, time)" by (cases p)
  from Cons.prems(1) p have ok1: "scene_ok (compute time scene)"
    and ok2: "list_all scene_ok (scenes_after compute (compute time scene) (map snd ps))"
    by simp_all
  from render_frame_ok[of compute time scene r, OF ok1 Cons.prems(2)] obtain img r1 where
    a: "render_frame compute r scene time = (Inr img, r1, compute time scene)"
    and st: "R_translations r1 = [(0, 0)]"
    and im: "fst (Renderer_render (compute time scene) Renderer_init) = Inr img" by blast
  from Cons.IH[OF ok2 st, of "acc @ [img]"] obtain imgs r' scene' where
    b: "render_frames compute (map Inr ps) r1 (compute time scene) (acc @ [img])
        = (Inr ((acc @ [img]) @ imgs), r', scene')"
    and st': "R_translations r' = [(0, 0)]"
    and ims: "map Inr imgs = map (\<lambda>s. fst (Renderer_render s Renderer_init))
            (scenes_after compute (compute time scene) (map snd ps))" by blast
  from a b p have "render_frames compute (map Inr (p # ps)) r scene acc
      = (Inr (acc @ (img # imgs)), r', scene')" by simp
  moreover from im ims p have "map Inr (img # imgs)
      = map (\<lambda>s. fst (Renderer_render s Renderer_init))
          (scenes_after compute scene (map snd (p # ps)))" by simp
  ultimately show ?case using st' by blast
qed

lemma iter_frame_time_pairs:
  "frame_rate \<noteq> 0 \<Longrightarrow>
     iter_frame_time duration frame_rate inclusive
       = map Inr (map (\<lambda>frame. (frame, of_int frame / of_int frame_rate))
           (py_range (calc_frame_count duration frame_rate inclusive)))
     \<and> map snd (map (\<lambda>frame. (frame, of_int frame / of_int frame_rate))
           (py_range (calc_frame_count duration frame_rate inclusive)))
         = frame_times duration frame_rate inclusive"
  by (simp add: iter_frame_time_nonzero frame_times_def comp_def)

lemma ex_compute_ok: "scene_ok scene \<Longrightarrow> scene_ok (ex_compute time scene)"
  by (cases scene) (simp_all add: ex_compute_def scene_ok_def ex_rectangle_def)

lemma scenes_after_ok:
  "scene_ok scene \<Longrightarrow> list_all scene_ok (scenes_after ex_compute scene ts)"
  by (induction ts arbitrary: scene) (simp_all add: ex_compute_ok)

lemma render_animation_ok:
  assumes "scene_duration (reset scene) = Inr duration"
    and "scene_frame_rate (reset scene) = Inr frame_rate"
    and "frame_rate \<noteq> 0"
    and "list_all scene_ok
           (scenes_after compute (reset scene) (frame_times duration frame_rate inclusive))"
  shows "\<exists>imgs.
      render_animation reset compute scene inclusive = Inr imgs
      \<and> length imgs = nat (calc_frame_count duration frame_rate inclusive)
      \<and> map Inr imgs = map (\<lambda>s. fst (Renderer_render s Renderer_init))
            (scenes_after compute (reset scene) (frame_times duration frame_rate inclusive))
      \<and> (\<forall>k \<le> length imgs. \<exists>r s.
            render_frames compute (take k (iter_frame_time duration frame_rate inclusive))
              Renderer_init (reset scene) [] = (Inr (take k imgs), r, s)
            \<and> R_translations r = [(0, 0)])"
proof -
  let ?ps = "map (\<lambda>frame. (frame, of_int frame / of_int frame_rate))
           (py_range (calc_frame_count duration frame_rate inclusive))"
  let ?times = "frame_times duration frame_rate inclusive"
  let ?scenes = "scenes_after compute (reset scene) ?times"
  from iter_frame_time_pairs[OF assms(3)] have it: "iter_frame_time duration frame_rate inclusive
      = map Inr ?ps" and ts: "map snd ?ps = ?times" by blast+
  have st0: "R_translations Renderer_init = [(0, 0)]" by (simp add: Renderer_init_def)
  from assms(4) ts have ok: "list_all scene_ok (scenes_after compute (reset scene) (map snd ?ps))"
    by simp
  from render_frames_ok[OF ok st0, of "[]"] ts obtain imgs r' scene' where
    a: "render_frames compute (map Inr ?ps) Renderer_init (reset scene) [] = (Inr imgs, r', scene')"
    and ims: "map Inr imgs = map (\<lambda>s. fst (Renderer_render s Renderer_init)) ?scenes"
    by auto
  from a it assms(1,2) have res: "render_animation reset compute scene inclusive = Inr imgs"
    by (simp add: render_animation_def)
  from ims have "length imgs = length ?scenes" by (metis length_map)
  then have len: "length imgs = nat (calc_frame_count duration frame_rate inclusive)"
    by (simp add: length_scenes_after frame_times_def length_py_range)
  have pre: "\<exists>r s. render_frames compute (take k (iter_frame_time duration frame_rate inclusive))
              Renderer_init (reset scene) [] = (Inr (take k imgs), r, s)
            \<and> R_translations r = [(0, 0)]" if "k \<le> length imgs" for k
  proof -
    have tk: "map snd (take k ?ps) = take k ?times" using ts by (simp add: take_map[symmetric])
    from assms(4) have "list_all scene_ok (take k ?scenes)"
      by (auto simp add: list_all_iff dest: in_set_takeD)
    with tk have okk: "list_all scene_ok (scenes_after compute (reset scene) (map snd (take k ?ps)))"
      by (simp add: scenes_after_take)
    from render_frames_ok[OF okk st0, of "[]"] obtain imgs_k r s where
      b: "render_frames compute (map Inr (take k ?ps)) Renderer_init (reset scene) []
          = (Inr imgs_k, r, s)"
      and stk: "R_translations r = [(0, 0)]"
      and imk: "map Inr imgs_k = map (\<lambda>s. fst (Renderer_render s Renderer_init))
            (scenes_after compute (reset scene) (map snd (take k ?ps)))"
      by auto
    have "scenes_after compute (reset scene) (map snd (take k ?ps)) = take k ?scenes"
      by (simp only: tk scenes_after_take)
    with imk have "map Inr imgs_k
        = map (\<lambda>s. fst (Renderer_render s Renderer_init)) (take k ?scenes)"
      by (simp only:)
    also have "\<dots> = take k (map (\<lambda>s. fst (Renderer_render s Renderer_init)) ?scenes)"
      by (simp only: take_map)
    also have "\<dots> = take k (map Inr imgs)" by (simp only: ims)
    also have "\<dots> = map Inr (take k imgs)" by (simp only: take_map)
    finally have "imgs_k = take k imgs" by (simp add: inj_map_eq_map)
    with b stk it show ?thesis by (simp add: take_map)
  qed
  from res len ims pre show ?thesis by blast
qed

lemma Renderer_render_keeps_stack:
  "Renderer_render el r = (Inr img, r') \<Longrightarrow> R_translations r' = R_translations r"
proof -
  assume a: "Renderer_render el r = (Inr img, r')"
  obtain res s where rs: "render_element el r = (res, s)" by (cases "render_element el r")
  with a obtain x where "res = Inr x" and "s = r'"
    by (cases res) (auto simp add: Renderer_render_def split: if_splits option.splits)
  with rs render_keeps_stack(1)[of el r x r'] show ?thesis by simp
qed

lemma render_frame_keeps_stack:
  "render_frame compute r scene time = (Inr img, r', scene') \<Longrightarrow>
     R_translations r' = R_translations r"
  by (cases "Renderer_render (compute time scene) r")
    (auto simp add: render_frame_def Let_def dest: Renderer_render_keeps_stack)

lemma render_frames_returns:
  "render_frames compute items r scene acc = (Inr out, r', scene') \<Longrightarrow>
     length out = length acc + length items
     \<and> (\<forall>k \<le> length items. \<exists>rk sk.
           render_frames compute (take k items) r scene acc
             = (Inr (take (length acc + k) out), rk, sk)
           \<and> R_translations rk = R_translations r)"
proof (induction compute items r scene acc arbitrary: out r' scene'
    rule: render_frames.induct)
  case (1 compute renderer scene frames)
  then show ?case by simp
next
  case (2 compute e rest renderer scene frames)
  then show ?case by simp
next
  case (3 compute frame time rest renderer scene frames)
  from "3.prems" obtain img r1 s1 where
    a: "render_frame compute renderer scene time = (Inr img, r1, s1)"
    and b: "render_frames compute rest r1 s1 (frames @ [img]) = (Inr out, r', scene')"
    by (cases "render_frame compute renderer scene time")
      (auto split: sum.splits)
  from render_frame_keeps_stack[OF a] have st: "R_translations r1 = R_translations renderer" .
  from "3.IH"[OF a[symmetric] refl refl b] have
    len: "length out = length (frames @ [img]) + length rest"
    and pre: "\<forall>k \<le> length rest. \<exists>rk sk.
           render_frames compute (take k rest) r1 s1 (frames @ [img])
             = (Inr (take (length (frames @ [img]) + k) out), rk, sk)
           \<and> R_translations rk = R_translations r1" by blast+
  have "\<exists>rk sk. render_frames compute (take k (Inr (frame, time) # rest)) renderer scene frames
             = (Inr (take (length frames + k) out), rk, sk)
           \<and> R_translations rk = R_translations renderer"
    if k: "k \<le> length (Inr (frame, time) # rest)" for k
  proof (cases k)
    case 0
    from b have "take (length frames) out = frames"
    proof -
      from pre have "\<exists>rk sk. render_frames compute (take 0 rest) r1 s1 (frames @ [img])
             = (Inr (take (length (frames @ [img]) + 0) out), rk, sk)" by blast
      then have "frames @ [img] = take (length frames + 1) out" by simp
      then have "take (length frames) (frames @ [img]) = take (length frames) (take (length frames + 1) out)"
        by simp
      then show ?thesis by (simp add: min_def)
    qed
    with 0 show ?thesis by simp
  next
    case (Suc j)
    with k have "j \<le> length rest" by simp
    with pre obtain rk sk where
      "render_frames compute (take j rest) r1 s1 (frames @ [img])
             = (Inr (take (length (frames @ [img]) + j) out), rk, sk)"
      "R_translations rk = R_translations r1" by blast
    with a st Suc show ?thesis by simp
  qed
  with len show ?case by simp
qed

lemma render_animation_returns:
  assumes "render_animation reset compute scene inclusive = Inr imgs"
  shows "\<exists>duration frame_rate.
      scene_duration (reset scene) = Inr duration
      \<and> scene_frame_rate (reset scene) = Inr frame_rate
      \<and> length imgs = nat (calc_frame_count duration frame_rate inclusive)
      \<and> (\<forall>k \<le> length imgs. \<exists>r s.
            render_frames compute (take k (iter_frame_time duration frame_rate inclusive))
              Renderer_init (reset scene) [] = (Inr (take k imgs), r, s)
            \<and> R_translations r = [(0, 0)])"
proof -
  from assms obtain duration where d: "scene_duration (reset scene) = Inr duration"
    by (cases "scene_duration (reset scene)") (simp_all add: render_animation_def)
  from assms d obtain frame_rate where f: "scene_frame_rate (reset scene) = Inr frame_rate"
    by (cases "scene_frame_rate (reset scene)") (simp_all add: render_animation_def)
  let ?items = "iter_frame_time duration frame_rate inclusive"
  from assms d f obtain r' s' where
    a: "render_frames compute ?items Renderer_init (reset scene) [] = (Inr imgs, r', s')"
    by (cases "render_frames compute ?items Renderer_init (reset scene) []")
      (auto simp add: render_animation_def)
  have li: "length ?items = nat (calc_frame_count duration frame_rate inclusive)"
    by (simp add: iter_frame_time_def length_py_range)
  from render_frames_returns[OF a] have len: "length imgs = length ?items"
    and pre: "\<forall>k \<le> length ?items. \<exists>rk sk.
           render_frames compute (take k ?items) Renderer_init (reset scene) []
             = (Inr (take k imgs), rk, sk)
           \<and> R_translations rk = R_translations Renderer_init" by simp_all
  from pre len have "\<forall>k \<le> length imgs. \<exists>r s.
            render_frames compute (take k ?items) Renderer_init (reset scene) []
              = (Inr (take k imgs), r, s)
            \<and> R_translations r = [(0, 0)]"
    by (simp add: Renderer_init_def)
  with d f len li show ?thesis by auto
qed

section \<open>Claims about elements and properties\<close>

text \<open>
  C2, as the code has it. \<^verbatim>\<open>add\<close> succeeds exactly when its argument is an Element without
  a parent; nothing in it looks for a cycle. A successful \<^verbatim>\<open>x.add(e)\<close> on an acyclic
  child-ownership graph leaves the graph acyclic exactly when \<open>x\<close> is neither \<open>e\<close> nor a
  descendant of \<open>e\<close>.
\<close>

theorem C2_add_without_cycle_check:
  "(fst (Element_add h self el) = Inr ()
      \<longleftrightarrow> isinstance el C_Element \<and> parent (h (obj_of el)) = None)
   \<and> (Element_add h self el = (Inr (), h') \<and> acyclic (child_edges h) \<longrightarrow>
        (acyclic (child_edges h') \<longleftrightarrow> (obj_of el, self) \<notin> (child_edges h)\<^sup>*))"
proof (intro conjI impI)
  assume a: "Element_add h self el = (Inr (), h') \<and> acyclic (child_edges h)"
  then have "child_edges h' = insert (self, obj_of el) (child_edges h)"
    by (simp add: add_child_edges)
  with a show "acyclic (child_edges h') \<longleftrightarrow> (obj_of el, self) \<notin> (child_edges h)\<^sup>*"
    by (simp add: acyclic_insert)
qed (rule add_succeeds_iff)

theorem C2_witness:
  "fst (Element_add fresh_heap (obj_of ex_group) ex_rect) = Inr ()
   \<and> acyclic (child_edges (snd (Element_add fresh_heap (obj_of ex_group) ex_rect)))"
proof -
  have a: "Element_add fresh_heap (obj_of ex_group) ex_rect
      = (Inr (), snd (Element_add fresh_heap (obj_of ex_group) ex_rect))"
    using add_ex by (cases "Element_add fresh_heap (obj_of ex_group) ex_rect") simp
  have b: "(obj_of ex_rect, obj_of ex_group) \<notin> (child_edges fresh_heap)\<^sup>*"
    by (simp add: child_edges_fresh obj_of_def ex_rect_def ex_group_def)
  have c: "acyclic (child_edges fresh_heap)"
    by (simp add: child_edges_fresh acyclic_def)
  from C2_add_without_cycle_check[of fresh_heap "obj_of ex_group" ex_rect
      "snd (Element_add fresh_heap (obj_of ex_group) ex_rect)"] a b c add_ex
  show ?thesis by blast
qed

text \<open>
  Adding a fresh element to itself succeeds: the element becomes its own parent and its
  own child, and the child-ownership graph has a cycle.
\<close>

theorem C2_counterexample:
  "fst (Element_add fresh_heap (obj_of ex_group) ex_group) = Inr ()
   \<and> parent (snd (Element_add fresh_heap (obj_of ex_group) ex_group) (obj_of ex_group))
       = Some (obj_of ex_group)
   \<and> children (snd (Element_add fresh_heap (obj_of ex_group) ex_group) (obj_of ex_group))
       = [ex_group]
   \<and> \<not> acyclic (child_edges (snd (Element_add fresh_heap (obj_of ex_group) ex_group)))"
proof -
  have a: "fst (Element_add fresh_heap (obj_of ex_group) ex_group) = Inr ()"
    by (simp add: Element_add_def fresh_heap_def Element_init_def ex_group_def
      obj_of_def isinstance_def issubclass_def Let_def)
  then have b: "Element_add fresh_heap (obj_of ex_group) ex_group
      = (Inr (), snd (Element_add fresh_heap (obj_of ex_group) ex_group))"
    by (cases "Element_add fresh_heap (obj_of ex_group) ex_group") simp
  have "(obj_of ex_group, obj_of ex_group)
      \<in> child_edges (snd (Element_add fresh_heap (obj_of ex_group) ex_group))"
    by (simp add: add_child_edges[OF b])
  then have c: "\<not> acyclic (child_edges (snd (Element_add fresh_heap (obj_of ex_group) ex_group)))"
    unfolding acyclic_def by blast
  from a c add_Inr_parent[OF b, of "obj_of ex_group"] add_Inr_children[OF b, of "obj_of ex_group"]
  show ?thesis by (simp add: fresh_heap_def Element_init_def)
qed



text \<open>
  C4, as the code has it. For a name that is not in the property map, \<^verbatim>\<open>has\<close> returns
  \<^verbatim>\<open>False\<close> (it is the membership test and does not raise), \<^verbatim>\<open>get\<close> raises \<^verbatim>\<open>KeyError\<close>, and
  \<^verbatim>\<open>set\<close> raises \<^verbatim>\<open>AssertionError\<close> and leaves the heap as it was.
\<close>

theorem C4_absent_name:
  "properties (h self) name = None \<Longrightarrow>
     Element_has h self name = False
     \<and> Element_get h self name = Inl KeyError
     \<and> Element_set h self name v = (Inl AssertionError, h)"
  by (simp add: Element_has_def Element_get_def Element_set_def)

theorem C4_witness:
  "Element_has ex_heap (obj_of ex_rect) ''height'' = False
   \<and> Element_get ex_heap (obj_of ex_rect) ''height'' = Inl KeyError
   \<and> Element_set ex_heap (obj_of ex_rect) ''height'' (PyInt 4) = (Inl AssertionError, ex_heap)"
proof -
  have a: "properties (ex_heap (obj_of ex_rect)) ''height'' = None"
    by (simp add: ex_heap_def ex_prop_def Element_define_def ElementProperty_init_def
      ElementProperty_set_def fresh_heap_def Element_init_def box_def isinstance_def
      issubclass_def obj_of_def ex_rect_def Let_def)
  from C4_absent_name[of ex_heap "obj_of ex_rect" "''height''" "PyInt 4"] a
  show ?thesis by blast
qed

text \<open>
  On a fresh element, which has no property \<^verbatim>\<open>width\<close>, \<^verbatim>\<open>has("width")\<close> returns \<^verbatim>\<open>False\<close>.
\<close>

theorem C4_has_counterexample:
  "properties (fresh_heap (obj_of ex_rect)) ''width'' = None
   \<and> Element_has fresh_heap (obj_of ex_rect) ''width'' = False"
  by (simp add: Element_has_def fresh_heap_def Element_init_def)

text \<open>
  C5. Once an element has been added as a child, every later \<^verbatim>\<open>add\<close> of it fails, whatever
  the target and whatever calls came in between: the assertion \<^verbatim>\<open>element._parent is None\<close>
  raises (the spec's OwnershipViolation is this \<^verbatim>\<open>AssertionError\<close>). And a call changes an
  element's parent only when it is a successful \<^verbatim>\<open>add\<close> of that element.
\<close>

theorem C5_second_add_fails:
  "(Element_add h p c = (Inr (), h1) \<longrightarrow>
      fst (Element_add (run cs h1) q c) = Inl AssertionError)
   \<and> (parent (snd (exec cl h) x) \<noteq> parent (h x) \<longrightarrow>
        (\<exists>self el. cl = Add self el \<and> obj_of el = x \<and> fst (exec cl h) = Inr ()
           \<and> parent (snd (exec cl h) x) = Some self))"
proof (intro conjI impI)
  assume a: "Element_add h p c = (Inr (), h1)"
  from add_Inr_parent[OF a, of "obj_of c"] have "parent (h1 (obj_of c)) = Some p" by simp
  then have "parent (run cs h1 (obj_of c)) = Some p" by (rule run_parent_kept)
  then show "fst (Element_add (run cs h1) q c) = Inl AssertionError"
    by (simp add: add_fails_iff)
next
  assume "parent (snd (exec cl h) x) \<noteq> parent (h x)"
  from exec_parent_change[OF this]
  show "\<exists>self el. cl = Add self el \<and> obj_of el = x \<and> fst (exec cl h) = Inr ()
           \<and> parent (snd (exec cl h) x) = Some self" by blast
qed

theorem C5_witness:
  "fst (Element_add fresh_heap (obj_of ex_group) ex_rect) = Inr ()
   \<and> fst (Element_add
        (run [Define (obj_of ex_rect) ''color'' (PyStr ''red'') Types_None None]
           (snd (Element_add fresh_heap (obj_of ex_group) ex_rect)))
        (obj_of ex_scene) ex_rect) = Inl AssertionError
   \<and> parent (snd (exec (Add (obj_of ex_group) ex_rect) fresh_heap) (obj_of ex_rect))
       = Some (obj_of ex_group)"
proof -
  have a: "Element_add fresh_heap (obj_of ex_group) ex_rect
      = (Inr (), snd (Element_add fresh_heap (obj_of ex_group) ex_rect))"
    using add_ex by (cases "Element_add fresh_heap (obj_of ex_group) ex_rect") simp
  have b: "parent (snd (exec (Add (obj_of ex_group) ex_rect) fresh_heap) (obj_of ex_rect))
      \<noteq> parent (fresh_heap (obj_of ex_rect))"
    by (simp add: Element_add_def fresh_heap_def Element_init_def ex_group_def ex_rect_def
      obj_of_def isinstance_def issubclass_def Let_def)
  from C5_second_add_fails[of fresh_heap "obj_of ex_group" ex_rect
      "snd (Element_add fresh_heap (obj_of ex_group) ex_rect)"
      "[Define (obj_of ex_rect) ''color'' (PyStr ''red'') Types_None None]" "obj_of ex_scene"
      "Add (obj_of ex_group) ex_rect" "obj_of ex_rect"] a b
  show ?thesis using add_ex by auto
qed

text \<open>
  C8. \<^verbatim>\<open>define\<close> and \<^verbatim>\<open>set\<close> box an int or float literal into a \<^verbatim>\<open>Number\<close> and a str literal
  into a \<^verbatim>\<open>String\<close> before anything else: both calls behave on a value as on its boxed
  form. After a successful \<^verbatim>\<open>define\<close> the stored value is the boxed one, an instance of
  \<^verbatim>\<open>Type\<close>, and without a \<^verbatim>\<open>types\<close> argument the allowed classes are exactly the class of
  the boxed value. After a successful \<^verbatim>\<open>set\<close>, on any heap built by calls on fresh
  elements, the stored value is the boxed one and an instance of \<^verbatim>\<open>Type\<close>.
\<close>

theorem C8_literals_are_boxed:
  "box (PyInt i) = Number (PyInt i) \<and> box (PyFloat x) = Number (PyFloat x)
   \<and> box (PyStr s) = String (PyStr s)
   \<and> Element_define h self name v ts rel = Element_define h self name (box v) ts rel
   \<and> Element_set h self name v = Element_set h self name (box v)
   \<and> (Element_define h self name v ts rel = (Inr (), h') \<longrightarrow>
        (\<exists>p. properties (h' self) name = Some p \<and> prop_value p = Some (box v)
           \<and> isinstance (box v) C_Type
           \<and> (ts = Types_None \<longrightarrow> prop_types p = [type_of (box v)])))
   \<and> (Element_set (run cs fresh_heap) self' name' w = (Inr (), h'') \<longrightarrow>
        (\<exists>p. properties (h'' self') name' = Some p \<and> prop_value p = Some (box w)
           \<and> isinstance (box w) C_Type))"
proof (intro conjI impI)
  assume a: "Element_define h self name v ts rel = (Inr (), h')"
  from define_stores[OF a]
  show "\<exists>p. properties (h' self) name = Some p \<and> prop_value p = Some (box v)
           \<and> isinstance (box v) C_Type
           \<and> (ts = Types_None \<longrightarrow> prop_types p = [type_of (box v)])"
    by auto
next
  assume a: "Element_set (run cs fresh_heap) self' name' w = (Inr (), h'')"
  from set_stores[OF heap_ok_run[OF heap_ok_fresh] a]
  show "\<exists>p. properties (h'' self') name' = Some p \<and> prop_value p = Some (box w)
           \<and> isinstance (box w) C_Type" .
qed (simp_all add: box_literals define_boxes_first[symmetric] set_boxes_first[symmetric])

theorem C8_witness:
  "(\<exists>p. properties (ex_heap (obj_of ex_rect)) ''width'' = Some p
        \<and> prop_value p = Some (Number (PyInt 3)) \<and> isinstance (Number (PyInt 3)) C_Type
        \<and> prop_types p = [C_Number])
   \<and> (\<exists>p. properties (snd (Element_set ex_heap (obj_of ex_rect) ''width'' (PyFloat (5 / 2)))
              (obj_of ex_rect)) ''width'' = Some p
        \<and> prop_value p = Some (Number (PyFloat (5 / 2))))"
proof -
  have b: "Element_set (run [Define (obj_of ex_rect) ''width'' (PyInt 3) Types_None None]
        fresh_heap) (obj_of ex_rect) ''width'' (PyFloat (5 / 2))
      = (Inr (), snd (Element_set ex_heap (obj_of ex_rect) ''width'' (PyFloat (5 / 2))))"
    using ex_set
    by (cases "Element_set ex_heap (obj_of ex_rect) ''width'' (PyFloat (5 / 2))")
      (simp add: ex_heap_def)
  note T = C8_literals_are_boxed[of 3 "5 / 2" "''wide''" fresh_heap "obj_of ex_rect" "''width''"
      "PyInt 3" Types_None None ex_heap
      "[Define (obj_of ex_rect) ''width'' (PyInt 3) Types_None None]"
      "obj_of ex_rect" "''width''" "PyFloat (5 / 2)"
      "snd (Element_set ex_heap (obj_of ex_rect) ''width'' (PyFloat (5 / 2)))"]
  from T ex_define have d:
    "\<exists>p. properties (ex_heap (obj_of ex_rect)) ''width'' = Some p
        \<and> prop_value p = Some (box (PyInt 3)) \<and> isinstance (box (PyInt 3)) C_Type
        \<and> prop_types p = [type_of (box (PyInt 3))]"
    by blast
  from T b have s:
    "\<exists>p. properties (snd (Element_set ex_heap (obj_of ex_rect) ''width'' (PyFloat (5 / 2)))
              (obj_of ex_rect)) ''width'' = Some p
        \<and> prop_value p = Some (box (PyFloat (5 / 2)))"
    by blast
  from d s show ?thesis by (simp add: box_literals)
qed

text \<open>
  C10. A \<^verbatim>\<open>define\<close> that raises leaves the heap, and so the element's property map, as it
  was: every assertion, those of the \<^verbatim>\<open>ElementProperty\<close> constructor included, comes before
  the insertion into the map. A name that is already defined and a value that is an
  instance of none of the given classes both make it raise.
\<close>

theorem C10_define_atomic:
  "(fst (Element_define h self name v ts rel) = Inl e \<longrightarrow>
      snd (Element_define h self name v ts rel) = h)
   \<and> (properties (h self) name \<noteq> None \<longrightarrow>
        Element_define h self name v ts rel = (Inl AssertionError, h))
   \<and> (ts = Types_Tuple cs \<and> \<not> list_ex (isinstance (box v)) cs \<longrightarrow>
        Element_define h self name v ts rel = (Inl AssertionError, h))"
proof (intro conjI impI)
  assume "fst (Element_define h self name v ts rel) = Inl e"
  then show "snd (Element_define h self name v ts rel) = h"
    by (cases "Element_define h self name v ts rel") (auto dest: define_Inl)
next
  assume "properties (h self) name \<noteq> None"
  then show "Element_define h self name v ts rel = (Inl AssertionError, h)"
    by (cases "properties (h self) name") (simp_all add: Element_define_def Let_def)
next
  assume "ts = Types_Tuple cs \<and> \<not> list_ex (isinstance (box v)) cs"
  then show "Element_define h self name v ts rel = (Inl AssertionError, h)"
    by (cases "properties (h self) name")
      (simp_all add: Element_define_def Let_def ElementProperty_init_def ElementProperty_set_def)
qed

theorem C10_witness:
  "fst (Element_define ex_heap (obj_of ex_rect) ''width'' (PyInt 5) Types_None None)
     = Inl AssertionError
   \<and> snd (Element_define ex_heap (obj_of ex_rect) ''width'' (PyInt 5) Types_None None) = ex_heap
   \<and> Element_define ex_heap (obj_of ex_rect) ''height'' (PyStr ''tall'')
        (Types_Tuple [C_Number]) None = (Inl AssertionError, ex_heap)
   \<and> properties (ex_heap (obj_of ex_rect)) ''height'' = None"
proof -
  have a: "properties (ex_heap (obj_of ex_rect)) ''width'' \<noteq> None"
    by (simp add: ex_heap_width)
  have b: "\<not> list_ex (isinstance (box (PyStr ''tall''))) [C_Number]"
    by (simp add: box_def isinstance_def issubclass_def)
  have c: "properties (ex_heap (obj_of ex_rect)) ''height'' = None"
    by (simp add: ex_heap_def ex_prop_def Element_define_def ElementProperty_init_def
      ElementProperty_set_def fresh_heap_def Element_init_def box_def isinstance_def
      issubclass_def obj_of_def ex_rect_def Let_def)
  from C10_define_atomic[of ex_heap "obj_of ex_rect" "''width''" "PyInt 5" Types_None None
      AssertionError "[]"]
    C10_define_atomic[of ex_heap "obj_of ex_rect" "''height''" "PyStr ''tall''"
      "Types_Tuple [C_Number]" None AssertionError "[C_Number]"] a b c
  show ?thesis by simp
qed

section \<open>Claims about the renderer\<close>




text \<open>
  C9. \<^verbatim>\<open>translate\<close> pushes the current translation plus the offset and runs the body on
  that stack. When the body returns and has left the stack as it found it, the pushed
  entry is popped and the stack is as before the call. When the body raises, nothing is
  popped: the renderer is left as the body left it. For the one use in the source,
  \<^verbatim>\<open>_render_Group\<close>: a Group that renders leaves the stack unchanged, and a Group whose
  children raise leaves the stack extended by at least the pushed entry.
\<close>

theorem C9_translate_scope:
  "(translation r = Inr t
      \<and> body (r\<lparr>R_translations := R_translations r @ [point_add t offset]\<rparr>) = (Inr x, r')
      \<and> R_translations r' = R_translations r @ [point_add t offset]
      \<longrightarrow> translate offset body r = (Inr x, r'\<lparr>R_translations := R_translations r\<rparr>))
   \<and> (translation r = Inr t
      \<and> body (r\<lparr>R_translations := R_translations r @ [point_add t offset]\<rparr>) = (Inl e, r')
      \<longrightarrow> translate offset body r = (Inl e, r'))
   \<and> (translation s = Inr t' \<and> render_element (Group position cs) s = (Inr y, s')
      \<longrightarrow> R_translations s' = R_translations s)
   \<and> (translation s = Inr t' \<and> render_element (Group position cs) s = (Inl e', s')
      \<longrightarrow> (\<exists>rest. R_translations s' = R_translations s @ [point_add t' position] @ rest))"
  using translate_body_returns[of r t body offset x r']
    translate_body_raises[of r t body offset e r']
    render_keeps_stack(1)[of "Group position cs" s y s']
    Group_error_leaks[of position cs s e' s' t']
  by blast

theorem C9_witness:
  "translate (10, 10) (\<lambda>s. render_children [Other ''Blob'' []] s) ex_renderer
     = (Inl AttributeError, ex_renderer\<lparr>R_translations := [(0, 0), (10, 10)]\<rparr>)
   \<and> fst (translate (10, 10) (\<lambda>s. render_children [ex_rectangle] s) ex_renderer) = Inr ()
   \<and> R_translations (snd (translate (10, 10) (\<lambda>s. render_children [ex_rectangle] s) ex_renderer))
       = [(0, 0)]
   \<and> R_translations (snd (render_element (Group (10, 10) [ex_rectangle]) ex_renderer)) = [(0, 0)]
   \<and> (\<exists>rest. R_translations (snd (render_element (Group (10, 10) [Other ''Blob'' []]) ex_renderer))
         = [(0, 0), (10, 10)] @ rest)"
proof -
  let ?push = "ex_renderer\<lparr>R_translations := R_translations ex_renderer
      @ [point_add (0, 0) (10, 10)]\<rparr>"
  let ?drawn = "?push\<lparr>R_image := Some \<lparr>img_size = (100, 100), img_background = ''white'',
      img_calls = [Draw_rect (Rect (15, 15) (20, 10)) ''red'' ''black'' 1]\<rparr>\<rparr>"
  have t: "translation ex_renderer = Inr (0, 0)"
    by (simp add: ex_renderer_def translation_def)
  have ok: "render_children [ex_rectangle] ?push = (Inr (), ?drawn)"
    by (simp add: ex_rectangle_def ex_renderer_def draw_def translation_def point_add_def
        Image_new_def)
  have st: "R_translations ?drawn = R_translations ex_renderer @ [point_add (0, 0) (10, 10)]"
    by simp
  have g_ok: "render_element (Group (10, 10) [ex_rectangle]) ex_renderer
      = (Inr None, ?drawn\<lparr>R_translations := R_translations ex_renderer\<rparr>)"
    using t ok by (simp add: translate_def)
  have g_bad: "render_element (Group (10, 10) [Other ''Blob'' []]) ex_renderer
      = (Inl AttributeError, ex_renderer\<lparr>R_translations := [(0, 0), (10, 10)]\<rparr>)"
    using t ex_group_leaks by (simp add: translate_def)
  from C9_translate_scope[of ex_renderer "(0, 0)" "\<lambda>s. render_children [ex_rectangle] s"
      "(10, 10)" "()" ?drawn AttributeError ex_renderer "(0, 0)" "(10, 10)" "[ex_rectangle]" None
      "?drawn\<lparr>R_translations := R_translations ex_renderer\<rparr>" AttributeError]
    t ok st g_ok
  have a: "translate (10, 10) (\<lambda>s. render_children [ex_rectangle] s) ex_renderer
      = (Inr (), ?drawn\<lparr>R_translations := R_translations ex_renderer\<rparr>)"
    and b: "R_translations (?drawn\<lparr>R_translations := R_translations ex_renderer\<rparr>)
      = R_translations ex_renderer"
    by blast+
  from C9_translate_scope[of ex_renderer "(0, 0)" "\<lambda>s. render_children [Other ''Blob'' []] s"
      "(10, 10)" "()" "ex_renderer\<lparr>R_translations := [(0, 0), (10, 10)]\<rparr>" AttributeError
      ex_renderer "(0, 0)" "(10, 10)" "[Other ''Blob'' []]" None
      "ex_renderer\<lparr>R_translations := [(0, 0), (10, 10)]\<rparr>" AttributeError]
    t ex_group_leaks g_bad
  have c: "translate (10, 10) (\<lambda>s. render_children [Other ''Blob'' []] s) ex_renderer
      = (Inl AttributeError, ex_renderer\<lparr>R_translations := [(0, 0), (10, 10)]\<rparr>)"
    and d: "\<exists>rest. R_translations (ex_renderer\<lparr>R_translations := [(0, 0), (10, 10)]\<rparr>)
      = R_translations ex_renderer @ [point_add (0, 0) (10, 10)] @ rest"
    by blast+
  from a b c d g_ok g_bad show ?thesis
    by (simp add: ex_renderer_def point_add_def)
qed

section \<open>Claims about the animation driver\<close>




text \<open>
  C7. Whenever \<^verbatim>\<open>render_animation\<close> returns, it returns one image for each enumerated pair,
  as many as the frame count says, and after each frame, that is after every initial part
  of the loop, the one renderer's translation stack is \<^verbatim>\<open>[Point(0, 0)]\<close> again. And it does
  return when the scene, after \<^verbatim>\<open>reset\<close>, has a duration and a non-zero frame rate and the
  tree is a renderable scene after each \<^verbatim>\<open>compute\<close> of the run; the image of a frame is then
  the rendering of the scene as \<^verbatim>\<open>reset\<close> (applied once, first) and the \<^verbatim>\<open>compute\<close> calls up
  to that frame (one for each frame, in order, each before its render) have left it.
\<close>

theorem C7_render_animation:
  "(render_animation reset compute scene inclusive = Inr imgs \<longrightarrow>
      (\<exists>duration frame_rate.
         scene_duration (reset scene) = Inr duration
         \<and> scene_frame_rate (reset scene) = Inr frame_rate
         \<and> length imgs = nat (calc_frame_count duration frame_rate inclusive)
         \<and> (\<forall>k \<le> length imgs. \<exists>r s.
               render_frames compute (take k (iter_frame_time duration frame_rate inclusive))
                 Renderer_init (reset scene) [] = (Inr (take k imgs), r, s)
               \<and> R_translations r = [(0, 0)])))
   \<and> (scene_duration (reset scene) = Inr d \<and> scene_frame_rate (reset scene) = Inr fr
        \<and> fr \<noteq> 0
        \<and> list_all scene_ok (scenes_after compute (reset scene) (frame_times d fr inclusive))
      \<longrightarrow>
      (\<exists>out.
         render_animation reset compute scene inclusive = Inr out
         \<and> length out = nat (calc_frame_count d fr inclusive)
         \<and> map Inr out = map (\<lambda>s. fst (Renderer_render s Renderer_init))
               (scenes_after compute (reset scene) (frame_times d fr inclusive))))"
proof (intro conjI impI)
  assume "render_animation reset compute scene inclusive = Inr imgs"
  then show "\<exists>duration frame_rate.
         scene_duration (reset scene) = Inr duration
         \<and> scene_frame_rate (reset scene) = Inr frame_rate
         \<and> length imgs = nat (calc_frame_count duration frame_rate inclusive)
         \<and> (\<forall>k \<le> length imgs. \<exists>r s.
               render_frames compute (take k (iter_frame_time duration frame_rate inclusive))
                 Renderer_init (reset scene) [] = (Inr (take k imgs), r, s)
               \<and> R_translations r = [(0, 0)])"
    by (rule render_animation_returns)
next
  assume a: "scene_duration (reset scene) = Inr d \<and> scene_frame_rate (reset scene) = Inr fr
        \<and> fr \<noteq> 0
        \<and> list_all scene_ok (scenes_after compute (reset scene) (frame_times d fr inclusive))"
  from a have "scene_duration (reset scene) = Inr d" "scene_frame_rate (reset scene) = Inr fr"
    "fr \<noteq> 0"
    "list_all scene_ok (scenes_after compute (reset scene) (frame_times d fr inclusive))"
    by simp_all
  from render_animation_ok[of reset scene d fr compute inclusive, OF this]
  show "\<exists>out.
         render_animation reset compute scene inclusive = Inr out
         \<and> length out = nat (calc_frame_count d fr inclusive)
         \<and> map Inr out = map (\<lambda>s. fst (Renderer_render s Renderer_init))
               (scenes_after compute (reset scene) (frame_times d fr inclusive))"
    by blast
qed

theorem C7_witness:
  "\<exists>imgs. render_animation (\<lambda>scene. scene) ex_compute ex_tree True = Inr imgs
     \<and> length imgs = 11
     \<and> (\<exists>r s. render_frames ex_compute (take 3 (iter_frame_time 1 10 True))
                  Renderer_init ex_tree [] = (Inr (take 3 imgs), r, s)
          \<and> R_translations r = [(0, 0)])"
proof -
  have d: "scene_duration ex_tree = Inr 1" and f: "scene_frame_rate ex_tree = Inr 10"
    by (simp_all add: ex_tree_def)
  have nz: "(10::int) \<noteq> 0" by simp
  have "scene_ok ex_tree" by (simp add: scene_ok_def ex_tree_def ex_rectangle_def)
  then have ok: "list_all scene_ok (scenes_after ex_compute ex_tree (frame_times 1 10 True))"
    by (rule scenes_after_ok)
  have n: "nat (calc_frame_count 1 10 True) = 11" by (simp add: calc_frame_count_def)
  from C7_render_animation[of "\<lambda>scene. scene" ex_compute ex_tree True "[]" 1 10] d f nz ok
  obtain imgs where a: "render_animation (\<lambda>scene. scene) ex_compute ex_tree True = Inr imgs"
    and l: "length imgs = nat (calc_frame_count 1 10 True)"
    by blast
  from C7_render_animation[of "\<lambda>scene. scene" ex_compute ex_tree True imgs 1 10] a
  obtain duration frame_rate where d': "scene_duration ex_tree = Inr duration"
    and f': "scene_frame_rate ex_tree = Inr frame_rate"
    and p: "\<forall>k \<le> length imgs. \<exists>r s.
            render_frames ex_compute (take k (iter_frame_time duration frame_rate True))
              Renderer_init ex_tree [] = (Inr (take k imgs), r, s)
            \<and> R_translations r = [(0, 0)]"
    by blast
  from d d' f f' have dv: "duration = 1" and fv: "frame_rate = 10" by simp_all
  from l n have l11: "length imgs = 11" by simp
  then have "(3::nat) \<le> length imgs" by simp
  with p dv fv have "\<exists>r s. render_frames ex_compute (take 3 (iter_frame_time 1 10 True))
                  Renderer_init ex_tree [] = (Inr (take 3 imgs), r, s)
          \<and> R_translations r = [(0, 0)]" by blast
  with a l11 show ?thesis by blast
qed
end
